(* ===== verification/Prelude.thy ===== *)
theory Prelude
  imports Main
begin

section \<open>Prelude: failures, vectors, strings and decimal numerals\<close>

text \<open>
  Shared by every component: the value that stands for a run the C++ standard gives no
  result to, or that leaves by an exception; the checked reads of \<open>std::vector\<close>; the part
  of \<open>std::string\<close> the sources use (\<open>find\<close>, \<open>find_last_of\<close>, \<open>rfind(p, 0) == 0\<close>, \<open>substr\<close>,
  \<open>std::to_string\<close>); the decimal parsers \<open>atoi\<close> and \<open>std::stoi\<close>; and signed 32-bit
  arithmetic.  A C++ \<open>char\<close> is an Isabelle \<open>char\<close>, a byte; \<open>std::string\<close> is \<open>string\<close>.
\<close>

named_theorems res_simps \<open>rewriting of results that may fail\<close>
named_theorems str_simps \<open>rewriting of the string operations\<close>

subsection \<open>Results that may fail\<close>

text \<open>
  \<open>Undefined_Behaviour\<close>: a null dereference, an index or \<open>back()\<close>/\<open>top()\<close> out of range, or a
  signed overflow.  \<open>Out_Of_Range\<close> is the exception of \<open>std::string::substr\<close>;
  \<open>Filesystem_Error\<close> is \<open>std::filesystem::filesystem_error\<close>.
\<close>

datatype failure = Undefined_Behaviour | Out_Of_Range | Filesystem_Error

type_synonym 'a result = "failure + 'a"

definition bind_res :: "'a result \<Rightarrow> ('a \<Rightarrow> 'b result) \<Rightarrow> 'b result" where
  "bind_res m f = (case m of Inl e \<Rightarrow> Inl e | Inr x \<Rightarrow> f x)"

lemma bind_res_simps [simp, res_simps]:
  "bind_res (Inl e) f = Inl e"
  "bind_res (Inr x) f = f x"
  by (simp_all add: bind_res_def)

lemma bind_res_eq_Inr [res_simps]:
  "bind_res m f = Inr y \<longleftrightarrow> (\<exists>x. m = Inr x \<and> f x = Inr y)"
  by (cases m) simp_all

lemma bind_res_eq_Inl [res_simps]:
  "bind_res m f = Inl e \<longleftrightarrow> m = Inl e \<or> (\<exists>x. m = Inr x \<and> f x = Inl e)"
  by (cases m) auto

lemma bind_res_cong [fundef_cong]:
  "m = m' \<Longrightarrow> (\<And>x. m' = Inr x \<Longrightarrow> f x = g x) \<Longrightarrow> bind_res m f = bind_res m' g"
  by (cases m') auto

lemma bind_res_assoc: "bind_res (bind_res m f) g = bind_res m (\<lambda>x. bind_res (f x) g)"
  by (cases m) simp_all

definition vec_at :: "'a list \<Rightarrow> nat \<Rightarrow> 'a result" where
  "vec_at xs i = (if i < length xs then Inr (xs ! i) else Inl Undefined_Behaviour)"

definition vec_back :: "'a list \<Rightarrow> 'a result" where
  "vec_back xs = (if xs = [] then Inl Undefined_Behaviour else Inr (last xs))"

lemma vec_at_simps [simp, res_simps]:
  "vec_at [] i = Inl Undefined_Behaviour"
  "vec_at (x # xs) 0 = Inr x"
  "vec_at (x # xs) (Suc i) = vec_at xs i"
  by (simp_all add: vec_at_def)

lemma vec_at_numeral [simp, res_simps]:
  "vec_at (x # xs) 1 = vec_at xs 0"
  "vec_at (x # xs) (numeral n) = vec_at xs (pred_numeral n)"
  by (simp_all add: vec_at_def numeral_eq_Suc)

lemma vec_back_simps [simp, res_simps]:
  "vec_back [] = Inl Undefined_Behaviour"
  "vec_back (xs @ [x]) = Inr x"
  by (simp_all add: vec_back_def)

subsection \<open>Results that do not throw\<close>

text \<open>A result that, when it fails, fails by undefined behaviour and not by an exception.\<close>

definition never_throws :: "'a result \<Rightarrow> bool" where
  "never_throws m \<longleftrightarrow> (\<forall>e. m = Inl e \<longrightarrow> e = Undefined_Behaviour)"

named_theorems no_throw \<open>results that do not throw\<close>

lemma never_throws_basic [no_throw, simp]:
  "never_throws (Inr x)" "never_throws (Inl Undefined_Behaviour)" "never_throws (vec_at xs i)" "never_throws (vec_back xs)"
  by (simp_all add: never_throws_def vec_at_def vec_back_def)

lemma never_throws_bind [no_throw]:
  "never_throws m \<Longrightarrow> (\<And>x. m = Inr x \<Longrightarrow> never_throws (f x)) \<Longrightarrow> never_throws (bind_res m f)"
  by (cases m) (auto simp: never_throws_def)

lemma never_throws_if [no_throw]:
  "(b \<Longrightarrow> never_throws m) \<Longrightarrow> (\<not> b \<Longrightarrow> never_throws m') \<Longrightarrow> never_throws (if b then m else m')"
  by simp

lemma never_throws_option [no_throw]:
  "(x = None \<Longrightarrow> never_throws m) \<Longrightarrow> (\<And>y. x = Some y \<Longrightarrow> never_throws (f y)) \<Longrightarrow>
   never_throws (case x of None \<Rightarrow> m | Some y \<Rightarrow> f y)"
  by (cases x) simp_all

lemma never_throws_prod [no_throw]: "(\<And>a b. p = (a, b) \<Longrightarrow> never_throws (f a b)) \<Longrightarrow> never_throws (case p of (a, b) \<Rightarrow> f a b)"
  by (cases p) simp

subsection \<open>Signed 32-bit arithmetic\<close>

definition INT_MAX :: int where "INT_MAX = 2147483647"

definition INT_MIN :: int where "INT_MIN = - 2147483648"

definition chk_int :: "int \<Rightarrow> int result" where
  "chk_int i = (if INT_MIN \<le> i \<and> i \<le> INT_MAX then Inr i else Inl Undefined_Behaviour)"

lemma chk_int_eq_Inr [res_simps]:
  "chk_int i = Inr j \<longleftrightarrow> j = i \<and> INT_MIN \<le> i \<and> i \<le> INT_MAX"
  by (auto simp: chk_int_def)

subsection \<open>Characters\<close>

abbreviation TAB :: char where "TAB \<equiv> CHR 0x09"
abbreviation LF :: char where "LF \<equiv> CHR 0x0A"
abbreviation CR :: char where "CR \<equiv> CHR 0x0D"
abbreviation SP :: char where "SP \<equiv> CHR 0x20"
abbreviation NUL :: char where "NUL \<equiv> CHR 0x00"
abbreviation DQUOTE :: char where "DQUOTE \<equiv> CHR 0x22"
abbreviation SQUOTE :: char where "SQUOTE \<equiv> CHR 0x27"
abbreviation BACKSLASH :: char where "BACKSLASH \<equiv> CHR 0x5C"
abbreviation SLASH :: char where "SLASH \<equiv> CHR 0x2F"

text \<open>The value of a (signed, as on x86) \<open>char\<close> promoted to \<open>int\<close>.\<close>

definition char_int :: "char \<Rightarrow> int" where
  "char_int c = (let n = int (of_char c) in if n < 128 then n else n - 256)"

definition isdigit :: "char \<Rightarrow> bool" where
  "isdigit c \<longleftrightarrow> 48 \<le> (of_char c :: nat) \<and> (of_char c :: nat) \<le> 57"

definition isspace :: "char \<Rightarrow> bool" where
  "isspace c \<longleftrightarrow> c = SP \<or> (9 \<le> (of_char c :: nat) \<and> (of_char c :: nat) \<le> 13)"

definition digit_value :: "char \<Rightarrow> int" where
  "digit_value c = int (of_char c) - 48"

definition digit_char :: "nat \<Rightarrow> char" where
  "digit_char d = char_of (48 + d)"

lemma of_char_digit_char [simp]: "d < 10 \<Longrightarrow> of_char (digit_char d) = 48 + d"
  by (simp add: digit_char_def of_char_of)

lemma isdigit_digit_char [simp]: "d < 10 \<Longrightarrow> isdigit (digit_char d)"
  by (simp add: isdigit_def)

lemma digit_value_digit_char [simp]: "d < 10 \<Longrightarrow> digit_value (digit_char d) = int d"
  by (simp add: digit_value_def)

lemma isdigit_not_isspace [simp]: "isdigit c \<Longrightarrow> \<not> isspace c"
  by (auto simp: isdigit_def isspace_def)

subsection \<open>std::string\<close>

fun starts_with :: "string \<Rightarrow> string \<Rightarrow> bool" where
  "starts_with [] s = True"
| "starts_with (p # ps) [] = False"
| "starts_with (p # ps) (c # cs) = (p = c \<and> starts_with ps cs)"

fun find_str :: "string \<Rightarrow> string \<Rightarrow> nat option" where
  "find_str p [] = (if p = [] then Some 0 else None)"
| "find_str p (c # cs) =
     (if starts_with p (c # cs) then Some 0 else map_option Suc (find_str p cs))"

fun find_char :: "char \<Rightarrow> string \<Rightarrow> nat option" where
  "find_char x [] = None"
| "find_char x (c # cs) = (if c = x then Some 0 else map_option Suc (find_char x cs))"

fun find_last_of :: "char \<Rightarrow> string \<Rightarrow> nat option" where
  "find_last_of x [] = None"
| "find_last_of x (c # cs) =
     (case find_last_of x cs of Some i \<Rightarrow> Some (Suc i)
      | None \<Rightarrow> if c = x then Some 0 else None)"

text \<open>
  \<open>pos + k\<close> for a \<open>size_t\<close> returned by a search: \<open>npos\<close> is the largest \<open>size_t\<close>, so adding
  \<open>k > 0\<close> to it wraps around to \<open>k - 1\<close>.  A position inside a string in memory cannot wrap.
\<close>

definition pos_plus :: "nat option \<Rightarrow> nat \<Rightarrow> nat" where
  "pos_plus pos k = (case pos of None \<Rightarrow> k - 1 | Some i \<Rightarrow> i + k)"

definition substr_from :: "string \<Rightarrow> nat \<Rightarrow> string result" where
  "substr_from s pos = (if pos \<le> length s then Inr (drop pos s) else Inl Out_Of_Range)"

lemma pos_plus_simps [simp, str_simps]:
  "pos_plus None k = k - 1"
  "pos_plus (Some i) k = i + k"
  by (simp_all add: pos_plus_def)

lemma starts_with_iff: "starts_with p s \<longleftrightarrow> (\<exists>r. s = p @ r)"
  by (induction p s rule: starts_with.induct) auto

lemma starts_with_append [simp, str_simps]: "starts_with p (p @ r)"
  by (simp add: starts_with_iff)

lemma starts_with_refl [simp, str_simps]: "starts_with p p"
  using starts_with_append [of p "[]"] by simp

lemma find_str_SomeD:
  "find_str p s = Some i \<Longrightarrow> \<exists>a b. s = a @ p @ b \<and> length a = i"
proof (induction p s arbitrary: i rule: find_str.induct)
  case (1 p)
  then show ?case by (simp split: if_splits)
next
  case (2 p c cs)
  show ?case
  proof (cases "starts_with p (c # cs)")
    case True
    with 2 show ?thesis by (auto simp: starts_with_iff)
  next
    case False
    with "2.prems" obtain j where j: "find_str p cs = Some j" "i = Suc j" by auto
    with "2.IH" [OF False] obtain a b where "cs = a @ p @ b" "length a = j" by blast
    with j have "c # cs = (c # a) @ p @ b \<and> length (c # a) = i" by simp
    then show ?thesis by blast
  qed
qed

lemma find_str_None_iff: "find_str p s = None \<longleftrightarrow> (\<nexists>a b. s = a @ p @ b)"
proof (induction p s rule: find_str.induct)
  case (1 p)
  then show ?case by simp
next
  case (2 p c cs)
  show ?case
  proof (cases "starts_with p (c # cs)")
    case True
    then obtain r where "c # cs = [] @ p @ r" by (auto simp: starts_with_iff)
    with True show ?thesis by (metis find_str.simps(2) option.distinct(1))
  next
    case False
    have "(\<exists>a b. c # cs = a @ p @ b) \<longleftrightarrow> (\<exists>a b. cs = a @ p @ b)"
      using False by (auto simp: starts_with_iff Cons_eq_append_conv)
    with False "2.IH" show ?thesis by simp
  qed
qed

lemma find_str_first:
  "find_str p s = Some i \<Longrightarrow> j < i \<Longrightarrow> \<not> starts_with p (drop j s)"
proof (induction p s arbitrary: i j rule: find_str.induct)
  case (1 p)
  then show ?case by (simp split: if_splits)
next
  case (2 p c cs)
  then show ?case by (cases j) (auto split: if_splits)
qed

lemma find_str_eqI:
  assumes "\<And>j. j < length a \<Longrightarrow> \<not> starts_with p (drop j (a @ p @ b))"
  shows "find_str p (a @ p @ b) = Some (length a)"
  using assms
proof (induction a)
  case Nil
  show ?case
  proof (cases "p @ b")
    case (Cons c cs)
    then have "starts_with p (c # cs)" by (metis starts_with_append)
    with Cons show ?thesis by simp
  qed simp
next
  case (Cons x a)
  have "\<not> starts_with p (x # a @ p @ b)" using Cons.prems [of 0] by simp
  moreover have "find_str p (a @ p @ b) = Some (length a)"
  proof (rule Cons.IH)
    fix j assume "j < length a"
    then show "\<not> starts_with p (drop j (a @ p @ b))" using Cons.prems [of "Suc j"] by simp
  qed
  ultimately show ?case by simp
qed

lemma starts_with_append_long:
  assumes "length p \<le> length s" and "starts_with p (s @ t)"
  shows "starts_with p s"
proof -
  from assms(2) obtain r where "s @ t = p @ r" by (auto simp: starts_with_iff)
  with assms(1) obtain u where "s = p @ u" by (auto simp: append_eq_append_conv2)
  then show ?thesis by (simp only: starts_with_append)
qed

lemma find_str_append:
  assumes "find_str p xs = Some i"
  shows "find_str p (xs @ ys) = Some i"
proof -
  from find_str_SomeD [OF assms] obtain a b where xs: "xs = a @ p @ b" and a: "length a = i" by blast
  have "find_str p (a @ p @ (b @ ys)) = Some (length a)"
  proof (rule find_str_eqI, rule notI)
    fix j assume j: "j < length a" and "starts_with p (drop j (a @ p @ b @ ys))"
    moreover have "drop j (a @ p @ b @ ys) = drop j xs @ ys" using j by (simp add: xs)
    ultimately have "starts_with p (drop j xs @ ys)" by (simp only:)
    moreover have "length p \<le> length (drop j xs)" using j by (simp add: xs)
    ultimately have "starts_with p (drop j xs)" by (rule starts_with_append_long [rotated])
    then show False using find_str_first [OF assms] j a by simp
  qed
  then show ?thesis by (simp add: xs a)
qed

lemma find_char_None_iff [str_simps]: "find_char x s = None \<longleftrightarrow> x \<notin> set s"
  by (induction x s rule: find_char.induct) auto

lemma find_char_append [str_simps]:
  "find_char x (a @ x # b) = Some (length a) \<longleftrightarrow> x \<notin> set a"
proof (induction a)
  case Nil
  then show ?case by simp
next
  case (Cons c a)
  then show ?case by (auto split: if_splits)
qed

lemma find_last_of_None_iff [str_simps]: "find_last_of x s = None \<longleftrightarrow> x \<notin> set s"
  by (induction x s rule: find_last_of.induct) (auto split: option.splits)

lemma find_last_of_append [str_simps]:
  "x \<notin> set b \<Longrightarrow> find_last_of x (a @ x # b) = Some (length a)"
proof (induction a)
  case Nil
  then have "find_last_of x b = None" by (simp add: find_last_of_None_iff)
  then show ?case by simp
qed simp

lemma find_last_of_SomeD:
  "find_last_of x s = Some i \<Longrightarrow> \<exists>a b. s = a @ x # b \<and> length a = i \<and> x \<notin> set b"
proof (induction x s arbitrary: i rule: find_last_of.induct)
  case (2 x c cs)
  show ?case
  proof (cases "find_last_of x cs")
    case None
    with "2.prems" have "c = x" "i = 0" by (simp_all split: if_splits)
    with None show ?thesis by (auto simp: find_last_of_None_iff)
  next
    case (Some j)
    with "2.IH" obtain a b where "cs = a @ x # b" "length a = j" "x \<notin> set b" by blast
    with Some "2.prems" have "c # cs = (c # a) @ x # b \<and> length (c # a) = i \<and> x \<notin> set b"
      by simp
    then show ?thesis by blast
  qed
qed simp

subsection \<open>Decimal numerals\<close>

fun show_nat :: "nat \<Rightarrow> string" where
  "show_nat n = (if n < 10 then [digit_char n] else show_nat (n div 10) @ [digit_char (n mod 10)])"

declare show_nat.simps [simp del]

definition to_string :: "int \<Rightarrow> string" where
  "to_string i = (if i < 0 then CHR ''-'' # show_nat (nat (- i)) else show_nat (nat i))"

definition digits_value :: "string \<Rightarrow> int" where
  "digits_value ds = foldl (\<lambda>v c. v * 10 + digit_value c) 0 ds"

text \<open>The sign and the digits \<open>strtol\<close> reads: white space, an optional sign, digits.\<close>

definition strtol_parts :: "string \<Rightarrow> bool \<times> string" where
  "strtol_parts s =
     (case dropWhile isspace s of
        [] \<Rightarrow> (False, [])
      | c # cs \<Rightarrow>
          if c = CHR ''-'' then (True, takeWhile isdigit cs)
          else if c = CHR ''+'' then (False, takeWhile isdigit cs)
          else (False, takeWhile isdigit (c # cs)))"

definition strtol_value :: "string \<Rightarrow> int" where
  "strtol_value s =
     (case strtol_parts s of (neg, ds) \<Rightarrow>
        if neg then - digits_value ds else digits_value ds)"

text \<open>\<open>atoi\<close>: 0 without digits; a value that is no \<open>int\<close> is undefined behaviour.\<close>

definition atoi :: "string \<Rightarrow> int result" where
  "atoi s = chk_int (strtol_value s)"

text \<open>\<open>std::stoi\<close>: \<open>None\<close> where it throws \<open>invalid_argument\<close> or \<open>out_of_range\<close>.\<close>

definition stoi :: "string \<Rightarrow> int option" where
  "stoi s =
     (if snd (strtol_parts s) = [] then None
      else if INT_MIN \<le> strtol_value s \<and> strtol_value s \<le> INT_MAX then Some (strtol_value s)
      else None)"

lemma show_nat_nonempty [simp]: "show_nat n \<noteq> []"
  by (subst show_nat.simps) simp

lemma show_nat_digits: "c \<in> set (show_nat n) \<Longrightarrow> isdigit c"
proof (induction n rule: show_nat.induct)
  case (1 n)
  then show ?case by (subst (asm) (2) show_nat.simps) (auto split: if_splits)
qed

lemma list_all_show_nat [simp]: "list_all isdigit (show_nat n)"
  by (simp add: list_all_iff show_nat_digits)

lemma digits_value_snoc [simp]: "digits_value (ds @ [c]) = digits_value ds * 10 + digit_value c"
  by (simp add: digits_value_def)

lemma digits_value_Nil [simp]: "digits_value [] = 0"
  by (simp add: digits_value_def)

lemma digits_value_show_nat [simp]: "digits_value (show_nat n) = int n"
proof (induction n rule: show_nat.induct)
  case (1 n)
  show ?case
  proof (cases "n < 10")
    case True
    then show ?thesis
      using digits_value_snoc [of "[]" "digit_char n"] by (subst show_nat.simps) simp
  next
    case False
    have "int (n div 10) * 10 + int (n mod 10) = int n"
      by (metis div_mult_mod_eq of_nat_add of_nat_mult of_nat_numeral)
    with 1 False show ?thesis by (subst show_nat.simps) simp
  qed
qed

lemma show_nat_inject [simp]: "show_nat m = show_nat n \<longleftrightarrow> m = n"
  by (metis digits_value_show_nat of_nat_eq_iff)

lemma strtol_parts_digits:
  assumes "list_all isdigit ds" and "ds \<noteq> []"
  shows "strtol_parts ds = (False, ds)"
proof -
  obtain c cs where ds: "ds = c # cs" using assms(2) by (cases ds) auto
  with assms(1) have "isdigit c" and t: "takeWhile isdigit ds = ds"
    by (auto simp: list_all_iff takeWhile_eq_all_conv)
  then have "\<not> isspace c" "c \<noteq> CHR ''-''" "c \<noteq> CHR ''+''"
    by (auto simp: isdigit_def isspace_def)
  with ds t show ?thesis by (simp add: strtol_parts_def)
qed

lemma strtol_value_digits:
  "list_all isdigit ds \<Longrightarrow> ds \<noteq> [] \<Longrightarrow> strtol_value ds = digits_value ds"
  by (simp add: strtol_value_def strtol_parts_digits)

lemma stoi_show_nat: "stoi (show_nat n) = (if int n \<le> INT_MAX then Some (int n) else None)"
  by (simp add: stoi_def strtol_parts_digits strtol_value_digits INT_MIN_def)

lemma atoi_show_nat: "int n \<le> INT_MAX \<Longrightarrow> atoi (show_nat n) = Inr (int n)"
  by (simp add: atoi_def strtol_value_digits chk_int_def INT_MIN_def)

lemma to_string_of_nat [simp]: "to_string (int n) = show_nat n"
  by (simp add: to_string_def)

end
