(* ===== verification/Config_Ast.thy ===== *)
theory Config_Ast
  imports Prelude
begin

section \<open>The parsed configuration and its printer\<close>

text \<open>
  \<open>NginxConfig\<close> and \<open>NginxConfigStatement\<close> of include/config_parser.h and the two
  \<open>ToString\<close> methods of src/config_parser.cc.  A statement owns its block (\<open>unique_ptr\<close>), so a
  configuration is a tree.  A pointer into the tree is the path of statement indices that
  leads to it from the root; \<open>node_at\<close> dereferences such a pointer and \<open>update_at\<close> writes
  through it.
\<close>

datatype NginxConfig =
    NginxConfig (statements: "NginxConfigStatement list")
  and NginxConfigStatement =
    NginxConfigStatement (tokens: "string list") (child_block: "NginxConfig option")

definition indent :: "int \<Rightarrow> string" where
  "indent depth = concat (replicate (nat depth) [SP, SP])"

fun join_tokens :: "string list \<Rightarrow> string" where
  "join_tokens [] = []"
| "join_tokens (t # ts) = t @ concat (map (\<lambda>u. SP # u) ts)"

fun config_ToString :: "int \<Rightarrow> NginxConfig \<Rightarrow> string"
  and statement_ToString :: "int \<Rightarrow> NginxConfigStatement \<Rightarrow> string" where
  "config_ToString depth (NginxConfig ss) = concat (map (statement_ToString depth) ss)"
| "statement_ToString depth (NginxConfigStatement ts (Some child)) =
     indent depth @ join_tokens ts @ '' {'' @ [LF] @ config_ToString (depth + 1) child @
     indent depth @ ''}'' @ [LF]"
| "statement_ToString depth (NginxConfigStatement ts None) =
     indent depth @ join_tokens ts @ '';'' @ [LF]"

subsection \<open>Pointers into a configuration\<close>

type_synonym config_ptr = "nat list"

fun map_child :: "(NginxConfig \<Rightarrow> NginxConfig) \<Rightarrow> NginxConfigStatement \<Rightarrow> NginxConfigStatement" where
  "map_child f (NginxConfigStatement ts child) = NginxConfigStatement ts (map_option f child)"

fun node_at :: "config_ptr \<Rightarrow> NginxConfig \<Rightarrow> NginxConfig option" where
  "node_at [] c = Some c"
| "node_at (i # p) (NginxConfig ss) =
     (if i < length ss then Option.bind (child_block (ss ! i)) (node_at p) else None)"

fun update_at :: "config_ptr \<Rightarrow> (NginxConfig \<Rightarrow> NginxConfig) \<Rightarrow> NginxConfig \<Rightarrow> NginxConfig" where
  "update_at [] f c = f c"
| "update_at (i # p) f (NginxConfig ss) = NginxConfig (ss[i := map_child (update_at p f) (ss ! i)])"

lemma child_map_child [simp]: "child_block (map_child f s) = map_option f (child_block s)"
  by (cases s) simp

lemma tokens_map_child [simp]: "tokens (map_child f s) = tokens s"
  by (cases s) simp

lemma map_child_map_child [simp]: "map_child f (map_child g s) = map_child (\<lambda>c. f (g c)) s"
  by (cases s) (simp add: option.map_comp o_def)

lemma map_child_cong:
  "(\<And>c. child_block s = Some c \<Longrightarrow> f c = g c) \<Longrightarrow> map_child f s = map_child g s"
  by (cases s) (auto simp: map_option_case split: option.splits)

lemma update_at_append: "update_at (p @ q) f c = update_at p (update_at q f) c"
proof (induction p arbitrary: c)
  case (Cons i p)
  then have "update_at (p @ q) f = update_at p (update_at q f)" by (intro ext)
  then show ?case by (cases c) simp
qed simp

lemma update_at_twice: "update_at p f (update_at p g c) = update_at p (\<lambda>x. f (g x)) c"
proof (induction p arbitrary: c)
  case (Cons i p)
  obtain ss where "c = NginxConfig ss" by (cases c)
  with Cons show ?case by (cases "i < length ss") (simp_all add: list_update_beyond)
qed simp

lemma update_at_id [simp]: "update_at p (\<lambda>c. c) c = c"
proof (induction p arbitrary: c)
  case (Cons i p)
  have "map_child (\<lambda>c. c) s = s" for s by (cases s) (simp add: option.map_ident)
  with Cons have "map_child (update_at p (\<lambda>c. c)) = (\<lambda>s. s)" by (metis (no_types) map_child_cong)
  then show ?case by (cases c) simp
qed simp

lemma update_at_rebuild [simp]: "update_at p (\<lambda>c. NginxConfig (statements c)) c = c"
  by simp

lemma node_at_append:
  "node_at (p @ q) c = Option.bind (node_at p c) (node_at q)"
proof (induction p arbitrary: c)
  case (Cons i p)
  obtain ss where "c = NginxConfig ss" by (cases c)
  with Cons show ?case by (auto split: bind_splits)
qed simp

lemma node_at_update_at [simp]: "node_at p (update_at p f c) = map_option f (node_at p c)"
proof (induction p arbitrary: c)
  case (Cons i p)
  obtain ss where "c = NginxConfig ss" by (cases c)
  with Cons show ?case by (auto split: bind_splits)
qed simp

lemma update_at_cong:
  "node_at p c = Some x \<Longrightarrow> f x = g x \<Longrightarrow> update_at p f c = update_at p g c"
proof (induction p arbitrary: c)
  case (Cons i p)
  obtain ss where c: "c = NginxConfig ss" by (cases c)
  from Cons.prems(1) c obtain y where i: "i < length ss"
    and y: "child_block (ss ! i) = Some y" "node_at p y = Some x"
    by (auto split: if_splits bind_splits)
  have "update_at p f y = update_at p g y" using y Cons by blast
  then have "map_child (update_at p f) (ss ! i) = map_child (update_at p g) (ss ! i)"
    using y by (intro map_child_cong) simp
  with c show ?case by simp
qed simp

subsection \<open>Appending to a block\<close>

definition append_statement :: "NginxConfigStatement \<Rightarrow> NginxConfig \<Rightarrow> NginxConfig" where
  "append_statement s c = NginxConfig (statements c @ [s])"

definition update_back :: "(NginxConfigStatement \<Rightarrow> NginxConfigStatement) \<Rightarrow> NginxConfig \<Rightarrow> NginxConfig" where
  "update_back f c =
     NginxConfig ((statements c)[length (statements c) - 1 := f (last (statements c))])"

lemma statements_append_statement [simp]:
  "statements (append_statement s c) = statements c @ [s]"
  by (simp add: append_statement_def)

lemma update_back_append_statement [simp]:
  "update_back f (append_statement s c) = append_statement (f s) c"
  by (simp add: update_back_def append_statement_def list_update_append)

lemma statements_update_back:
  "statements c \<noteq> [] \<Longrightarrow> statements (update_back f c) = butlast (statements c) @ [f (last (statements c))]"
  by (cases "statements c" rule: rev_cases) (simp_all add: update_back_def list_update_append)

subsection \<open>Well-formed configurations\<close>

text \<open>Every statement has a first token, and every token satisfies \<open>P\<close>.\<close>

fun all_statements :: "(string list \<Rightarrow> bool) \<Rightarrow> NginxConfig \<Rightarrow> bool"
  and all_in_statement :: "(string list \<Rightarrow> bool) \<Rightarrow> NginxConfigStatement \<Rightarrow> bool" where
  "all_statements P (NginxConfig ss) = list_all (all_in_statement P) ss"
| "all_in_statement P (NginxConfigStatement ts None) = P ts"
| "all_in_statement P (NginxConfigStatement ts (Some child)) = (P ts \<and> all_statements P child)"

lemma all_statements_iff: "all_statements P c \<longleftrightarrow> list_all (all_in_statement P) (statements c)"
  by (cases c) simp

lemma all_in_statement_iff:
  "all_in_statement P s \<longleftrightarrow> P (tokens s) \<and> pred_option (all_statements P) (child_block s)"
  by (cases "(P, s)" rule: all_in_statement.cases) auto

lemma all_in_map_child:
  assumes "all_in_statement P s"
    and "\<And>c. child_block s = Some c \<Longrightarrow> all_statements P c \<Longrightarrow> all_statements P (f c)"
  shows "all_in_statement P (map_child f s)"
  using assms by (cases "child_block s") (auto simp: all_in_statement_iff)

lemma all_statements_update_at:
  assumes "all_statements P c" and "\<And>d. all_statements P d \<Longrightarrow> all_statements P (f d)"
  shows "all_statements P (update_at p f c)"
  using assms(1)
proof (induction p arbitrary: c)
  case Nil
  then show ?case by (simp add: assms(2))
next
  case (Cons i p)
  obtain ss where c: "c = NginxConfig ss" by (cases c)
  show ?case
  proof (cases "i < length ss")
    case True
    have "all_in_statement P (ss ! i)" using c True Cons.prems by (auto simp: list_all_length)
    then have "all_in_statement P (map_child (update_at p f) (ss ! i))"
      by (rule all_in_map_child) (rule Cons.IH)
    with c True Cons.prems show ?thesis by (auto simp: list_all_length nth_list_update)
  next
    case False
    with c Cons.prems show ?thesis by (simp add: list_update_beyond)
  qed
qed

end
