(* ===== verification/Config_Lexer.thy ===== *)
theory Config_Lexer
  imports Prelude
begin

section \<open>The tokenizer of the configuration parser\<close>

text \<open>
  \<open>NginxConfigParser::ParseToken\<close> of src/config_parser.cc.  The input stream is the list of
  the characters not read yet: \<open>get\<close> at its end makes the stream no longer \<open>good\<close>, and
  \<open>unget\<close> puts the last character back.  The result is the token's type, the text left in
  \<open>*value\<close>, and the stream afterwards.
\<close>

datatype TokenType =
    TOKEN_TYPE_START
  | TOKEN_TYPE_NORMAL
  | TOKEN_TYPE_START_BLOCK
  | TOKEN_TYPE_END_BLOCK
  | TOKEN_TYPE_COMMENT
  | TOKEN_TYPE_STATEMENT_END
  | TOKEN_TYPE_EOF
  | TOKEN_TYPE_ERROR

datatype TokenParserState =
    TOKEN_STATE_INITIAL_WHITESPACE
  | TOKEN_STATE_SINGLE_QUOTE
  | TOKEN_STATE_DOUBLE_QUOTE
  | TOKEN_STATE_TOKEN_TYPE_COMMENT
  | TOKEN_STATE_TOKEN_TYPE_NORMAL

fun TokenTypeAsString :: "TokenType \<Rightarrow> string" where
  "TokenTypeAsString TOKEN_TYPE_START = ''TOKEN_TYPE_START''"
| "TokenTypeAsString TOKEN_TYPE_NORMAL = ''TOKEN_TYPE_NORMAL''"
| "TokenTypeAsString TOKEN_TYPE_START_BLOCK = ''TOKEN_TYPE_START_BLOCK''"
| "TokenTypeAsString TOKEN_TYPE_END_BLOCK = ''TOKEN_TYPE_END_BLOCK''"
| "TokenTypeAsString TOKEN_TYPE_COMMENT = ''TOKEN_TYPE_COMMENT''"
| "TokenTypeAsString TOKEN_TYPE_STATEMENT_END = ''TOKEN_TYPE_STATEMENT_END''"
| "TokenTypeAsString TOKEN_TYPE_EOF = ''TOKEN_TYPE_EOF''"
| "TokenTypeAsString TOKEN_TYPE_ERROR = ''TOKEN_TYPE_ERROR''"

text \<open>The characters that may follow a quoted token, and those that end a plain one.\<close>

definition after_quote_chars :: string where
  "after_quote_chars = [SP, TAB, LF, CR, CHR ''{'', CHR ''}'', CHR '';'']"

definition normal_end_chars :: string where
  "normal_end_chars = [SP, TAB, LF, TAB, CHR '';'', CHR ''{'', CHR ''}'']"

text \<open>
  After the closing quote: at the end of the stream the loop stops in its quote state, which
  is the error at the end of the function.
\<close>

fun closing_quote :: "string \<Rightarrow> string \<Rightarrow> TokenType \<times> string \<times> string" where
  "closing_quote value [] = (TOKEN_TYPE_ERROR, value, [])"
| "closing_quote value (after_c # input) =
     (if after_c \<noteq> NUL \<and> after_c \<in> set after_quote_chars
      then (TOKEN_TYPE_NORMAL, value, after_c # input)
      else (TOKEN_TYPE_ERROR, value, input))"

text \<open>The loop of \<open>ParseToken\<close>, one equation for each state.\<close>

fun ParseToken_loop ::
  "TokenParserState \<Rightarrow> string \<Rightarrow> string \<Rightarrow> TokenType \<times> string \<times> string" where
  "ParseToken_loop state value [] =
     (if state = TOKEN_STATE_SINGLE_QUOTE \<or> state = TOKEN_STATE_DOUBLE_QUOTE
      then (TOKEN_TYPE_ERROR, value, []) else (TOKEN_TYPE_EOF, value, []))"
| "ParseToken_loop TOKEN_STATE_INITIAL_WHITESPACE value (c # input) =
     (if c = CHR ''{'' then (TOKEN_TYPE_START_BLOCK, [c], input)
      else if c = CHR ''}'' then (TOKEN_TYPE_END_BLOCK, [c], input)
      else if c = CHR ''#'' then ParseToken_loop TOKEN_STATE_TOKEN_TYPE_COMMENT [c] input
      else if c = DQUOTE then ParseToken_loop TOKEN_STATE_DOUBLE_QUOTE [c] input
      else if c = SQUOTE then ParseToken_loop TOKEN_STATE_SINGLE_QUOTE [c] input
      else if c = CHR '';'' then (TOKEN_TYPE_STATEMENT_END, [c], input)
      else if c = SP \<or> c = TAB \<or> c = LF \<or> c = CR
        then ParseToken_loop TOKEN_STATE_INITIAL_WHITESPACE value input
      else ParseToken_loop TOKEN_STATE_TOKEN_TYPE_NORMAL (value @ [c]) input)"
| "ParseToken_loop TOKEN_STATE_SINGLE_QUOTE value (c # input) =
     (let value = value @ [c] in
      if c = SQUOTE then closing_quote value input
      else if c = BACKSLASH
        then ParseToken_loop TOKEN_STATE_SINGLE_QUOTE (butlast value @ [c]) input
      else ParseToken_loop TOKEN_STATE_SINGLE_QUOTE value input)"
| "ParseToken_loop TOKEN_STATE_DOUBLE_QUOTE value (c # input) =
     (let value = value @ [c] in
      if c = DQUOTE then closing_quote value input
      else if c = BACKSLASH
        then ParseToken_loop TOKEN_STATE_DOUBLE_QUOTE (butlast value @ [c]) input
      else ParseToken_loop TOKEN_STATE_DOUBLE_QUOTE value input)"
| "ParseToken_loop TOKEN_STATE_TOKEN_TYPE_COMMENT value (c # input) =
     (if c = LF \<or> c = CR then (TOKEN_TYPE_COMMENT, value, input)
      else ParseToken_loop TOKEN_STATE_TOKEN_TYPE_COMMENT (value @ [c]) input)"
| "ParseToken_loop TOKEN_STATE_TOKEN_TYPE_NORMAL value (c # input) =
     (if c \<in> set normal_end_chars then (TOKEN_TYPE_NORMAL, value, c # input)
      else ParseToken_loop TOKEN_STATE_TOKEN_TYPE_NORMAL (value @ [c]) input)"

text \<open>\<open>Parse\<close> calls \<open>ParseToken\<close> with an empty \<open>value\<close> each time.\<close>

definition ParseToken :: "string \<Rightarrow> TokenType \<times> string \<times> string" where
  "ParseToken input = ParseToken_loop TOKEN_STATE_INITIAL_WHITESPACE [] input"

subsection \<open>What a token consumes\<close>

lemma closing_quote_length: "length (snd (snd (closing_quote v s))) \<le> length s"
  by (cases s) auto

lemma ParseToken_loop_length: "length (snd (snd (ParseToken_loop st v s))) \<le> length s"
proof (induction s arbitrary: st v)
  case (Cons c s)
  show ?case
    by (cases st) (simp_all add: Let_def le_SucI Cons.IH closing_quote_length)
qed simp

lemma ParseToken_initial_length:
  "fst (ParseToken_loop TOKEN_STATE_INITIAL_WHITESPACE v s) \<noteq> TOKEN_TYPE_EOF \<Longrightarrow>
   length (snd (snd (ParseToken_loop TOKEN_STATE_INITIAL_WHITESPACE v s))) < length s"
proof (induction s arbitrary: v)
  case (Cons c s)
  have "length (snd (snd (ParseToken_loop st v s))) < Suc (length s)" for st v
    using ParseToken_loop_length [of st v s] by simp
  then show ?case by simp
qed simp

lemma ParseToken_shrinks:
  assumes "ParseToken s = (tt, w, r)" and "tt \<noteq> TOKEN_TYPE_EOF"
  shows "length r < length s"
  using ParseToken_initial_length [of "[]" s] assms by (simp add: ParseToken_def)

lemma ParseToken_skip_blank [simp]:
  "c \<in> {SP, TAB, LF, CR} \<Longrightarrow> ParseToken (c # s) = ParseToken s"
  by (auto simp: ParseToken_def)

lemma ParseToken_skip_blanks:
  "set ws \<subseteq> {SP, TAB, LF, CR} \<Longrightarrow> ParseToken (ws @ s) = ParseToken s"
  by (induction ws) auto

lemma ParseToken_punctuation [simp]:
  "ParseToken [] = (TOKEN_TYPE_EOF, [], [])"
  "ParseToken (CHR ''{'' # s) = (TOKEN_TYPE_START_BLOCK, ''{'', s)"
  "ParseToken (CHR ''}'' # s) = (TOKEN_TYPE_END_BLOCK, ''}'', s)"
  "ParseToken (CHR '';'' # s) = (TOKEN_TYPE_STATEMENT_END, '';'', s)"
  by (simp_all add: ParseToken_def)

subsection \<open>The words of the language\<close>

definition blank_chars :: string where
  "blank_chars = [SP, TAB, LF, CR]"

definition special_start_chars :: string where
  "special_start_chars =
     [CHR ''{'', CHR ''}'', CHR ''#'', DQUOTE, SQUOTE, CHR '';'', SP, TAB, LF, CR]"

fun plain_token :: "string \<Rightarrow> bool" where
  "plain_token [] = False"
| "plain_token (c # cs) \<longleftrightarrow>
     c \<notin> set special_start_chars \<and> list_all (\<lambda>d. d \<notin> set normal_end_chars) cs"

text \<open>A quoted word keeps its quotes.  A backslash inside it does not protect a quote.\<close>

definition quoted_token :: "char \<Rightarrow> string \<Rightarrow> bool" where
  "quoted_token q t \<longleftrightarrow>
     2 \<le> length t \<and> hd t = q \<and> last t = q \<and> q \<notin> set (butlast (tl t))"

definition wf_token :: "string \<Rightarrow> bool" where
  "wf_token t \<longleftrightarrow> plain_token t \<or> quoted_token DQUOTE t \<or> quoted_token SQUOTE t"

text \<open>The characters the word \<open>t\<close> may be followed by.\<close>

definition ends_token :: "string \<Rightarrow> char \<Rightarrow> bool" where
  "ends_token t d \<longleftrightarrow>
     (if plain_token t then d \<in> set normal_end_chars else d \<in> set after_quote_chars)"

lemma quoted_token_iff: "quoted_token q t \<longleftrightarrow> (\<exists>b. t = q # b @ [q] \<and> q \<notin> set b)"
proof
  assume q: "quoted_token q t"
  then have "t \<noteq> []" "tl t \<noteq> []" by (auto simp: quoted_token_def) (cases t, auto)
  then have "t = hd t # butlast (tl t) @ [last (tl t)]" by (cases t) simp_all
  moreover have "last (tl t) = last t" using \<open>tl t \<noteq> []\<close> by (cases t) auto
  ultimately have "t = q # butlast (tl t) @ [q]" using q by (simp add: quoted_token_def)
  with q show "\<exists>b. t = q # b @ [q] \<and> q \<notin> set b" by (metis quoted_token_def)
next
  assume "\<exists>b. t = q # b @ [q] \<and> q \<notin> set b"
  then show "quoted_token q t" by (auto simp: quoted_token_def)
qed

lemma lex_single_quoted:
  "SQUOTE \<notin> set b \<Longrightarrow>
   ParseToken_loop TOKEN_STATE_SINGLE_QUOTE v (b @ SQUOTE # r) = closing_quote (v @ b @ [SQUOTE]) r"
  by (induction b arbitrary: v) (auto simp: Let_def)

lemma lex_double_quoted:
  "DQUOTE \<notin> set b \<Longrightarrow>
   ParseToken_loop TOKEN_STATE_DOUBLE_QUOTE v (b @ DQUOTE # r) = closing_quote (v @ b @ [DQUOTE]) r"
  by (induction b arbitrary: v) (auto simp: Let_def)

lemma lex_plain_rest:
  "list_all (\<lambda>d. d \<notin> set normal_end_chars) b \<Longrightarrow> d \<in> set normal_end_chars \<Longrightarrow>
   ParseToken_loop TOKEN_STATE_TOKEN_TYPE_NORMAL v (b @ d # r) = (TOKEN_TYPE_NORMAL, v @ b, d # r)"
  by (induction b arbitrary: v) auto

lemma ParseToken_plain_EOF:
  assumes "plain_token t"
  shows "ParseToken t = (TOKEN_TYPE_EOF, t, [])"
proof -
  have "list_all (\<lambda>d. d \<notin> set normal_end_chars) b \<Longrightarrow>
      ParseToken_loop TOKEN_STATE_TOKEN_TYPE_NORMAL v b = (TOKEN_TYPE_EOF, v @ b, [])" for v b
    by (induction b arbitrary: v) auto
  with assms show ?thesis
    by (cases t) (auto simp: ParseToken_def special_start_chars_def)
qed

lemma after_quote_chars_not_NUL: "d \<in> set after_quote_chars \<Longrightarrow> d \<noteq> NUL"
  by (auto simp: after_quote_chars_def)

lemma NUL_not_after_quote [simp]: "NUL \<notin> set after_quote_chars"
  by (simp add: after_quote_chars_def)

lemma closing_quote_ok:
  "d \<in> set after_quote_chars \<Longrightarrow> closing_quote v (d # r) = (TOKEN_TYPE_NORMAL, v, d # r)"
  by (simp add: after_quote_chars_not_NUL)

lemma ParseToken_quoted:
  "SQUOTE \<notin> set b \<Longrightarrow> ParseToken (SQUOTE # b @ SQUOTE # r) = closing_quote (SQUOTE # b @ [SQUOTE]) r"
  "DQUOTE \<notin> set b \<Longrightarrow> ParseToken (DQUOTE # b @ DQUOTE # r) = closing_quote (DQUOTE # b @ [DQUOTE]) r"
  by (simp_all add: ParseToken_def lex_single_quoted lex_double_quoted)

lemma ParseToken_word:
  assumes "wf_token t" and "ends_token t d"
  shows "ParseToken (t @ d # r) = (TOKEN_TYPE_NORMAL, t, d # r)"
proof (cases "plain_token t")
  case True
  then obtain c cs where t: "t = c # cs" and "c \<notin> set special_start_chars"
    and cs: "list_all (\<lambda>d. d \<notin> set normal_end_chars) cs" by (cases t) auto
  with True assms(2) show ?thesis
    by (simp add: ParseToken_def ends_token_def special_start_chars_def lex_plain_rest)
next
  case False
  then have d: "d \<in> set after_quote_chars" using assms(2) by (simp add: ends_token_def)
  from False assms(1) consider (dq) b where "t = DQUOTE # b @ [DQUOTE]" "DQUOTE \<notin> set b"
    | (sq) b where "t = SQUOTE # b @ [SQUOTE]" "SQUOTE \<notin> set b"
    by (auto simp: wf_token_def quoted_token_iff)
  then show ?thesis
    by cases (simp_all only: append_Cons append_assoc append_Nil ParseToken_quoted closing_quote_ok [OF d] not_False_eq_True)
qed

subsection \<open>Only words are NORMAL tokens\<close>

lemma closing_quote_NORMAL:
  "closing_quote v s = (TOKEN_TYPE_NORMAL, w, r) \<longleftrightarrow>
   w = v \<and> r = s \<and> (\<exists>d s'. s = d # s' \<and> d \<in> set after_quote_chars)"
proof (cases s)
  case (Cons a l)
  show ?thesis
  proof (cases "a \<in> set after_quote_chars")
    case True
    then have "a \<noteq> NUL" by (rule after_quote_chars_not_NUL)
    with Cons True show ?thesis by (simp del: NUL_not_after_quote) (metis)
  next
    case False
    with Cons show ?thesis by simp
  qed
qed simp

lemma lex_single_quote_NORMAL:
  "ParseToken_loop TOKEN_STATE_SINGLE_QUOTE v s = (TOKEN_TYPE_NORMAL, w, r) \<Longrightarrow>
   \<exists>b d r'. SQUOTE \<notin> set b \<and> w = v @ b @ [SQUOTE] \<and> s = b @ SQUOTE # r \<and> r = d # r' \<and>
     d \<in> set after_quote_chars"
proof (induction s arbitrary: v)
  case (Cons c s)
  show ?case
  proof (cases "c = SQUOTE")
    case True
    with Cons.prems show ?thesis by (auto simp: Let_def closing_quote_NORMAL intro!: exI [of _ "[]"])
  next
    case False
    with Cons.prems have "ParseToken_loop TOKEN_STATE_SINGLE_QUOTE (v @ [c]) s = (TOKEN_TYPE_NORMAL, w, r)"
      by (simp add: Let_def split: if_splits)
    from Cons.IH [OF this] obtain b d r' where "SQUOTE \<notin> set b" "w = (v @ [c]) @ b @ [SQUOTE]"
      "s = b @ SQUOTE # r" "r = d # r'" "d \<in> set after_quote_chars" by blast
    with False show ?thesis by (intro exI [of _ "c # b"]) auto
  qed
qed simp

lemma lex_double_quote_NORMAL:
  "ParseToken_loop TOKEN_STATE_DOUBLE_QUOTE v s = (TOKEN_TYPE_NORMAL, w, r) \<Longrightarrow>
   \<exists>b d r'. DQUOTE \<notin> set b \<and> w = v @ b @ [DQUOTE] \<and> s = b @ DQUOTE # r \<and> r = d # r' \<and>
     d \<in> set after_quote_chars"
proof (induction s arbitrary: v)
  case (Cons c s)
  show ?case
  proof (cases "c = DQUOTE")
    case True
    with Cons.prems show ?thesis by (auto simp: Let_def closing_quote_NORMAL intro!: exI [of _ "[]"])
  next
    case False
    with Cons.prems have "ParseToken_loop TOKEN_STATE_DOUBLE_QUOTE (v @ [c]) s = (TOKEN_TYPE_NORMAL, w, r)"
      by (simp add: Let_def split: if_splits)
    from Cons.IH [OF this] obtain b d r' where "DQUOTE \<notin> set b" "w = (v @ [c]) @ b @ [DQUOTE]"
      "s = b @ DQUOTE # r" "r = d # r'" "d \<in> set after_quote_chars" by blast
    with False show ?thesis by (intro exI [of _ "c # b"]) auto
  qed
qed simp

lemma lex_plain_NORMAL:
  "ParseToken_loop TOKEN_STATE_TOKEN_TYPE_NORMAL v s = (TOKEN_TYPE_NORMAL, w, r) \<Longrightarrow>
   \<exists>b d r'. list_all (\<lambda>d. d \<notin> set normal_end_chars) b \<and> w = v @ b \<and> s = b @ r \<and> r = d # r' \<and>
     d \<in> set normal_end_chars"
proof (induction s arbitrary: v)
  case (Cons c s)
  show ?case
  proof (cases "c \<in> set normal_end_chars")
    case True
    with Cons.prems show ?thesis by (intro exI [of _ "[]"]) auto
  next
    case False
    with Cons.prems have "ParseToken_loop TOKEN_STATE_TOKEN_TYPE_NORMAL (v @ [c]) s = (TOKEN_TYPE_NORMAL, w, r)"
      by simp
    from Cons.IH [OF this] obtain b d r' where "list_all (\<lambda>d. d \<notin> set normal_end_chars) b"
      "w = (v @ [c]) @ b" "s = b @ r" "r = d # r'" "d \<in> set normal_end_chars" by blast
    with False show ?thesis by (intro exI [of _ "c # b"]) auto
  qed
qed simp

lemma lex_comment_not_NORMAL:
  "ParseToken_loop TOKEN_STATE_TOKEN_TYPE_COMMENT v s \<noteq> (TOKEN_TYPE_NORMAL, w, r)"
  by (induction s arbitrary: v) simp_all

lemma ParseToken_NORMAL:
  "ParseToken s = (TOKEN_TYPE_NORMAL, t, r) \<Longrightarrow>
   \<exists>ws d r'. set ws \<subseteq> set blank_chars \<and> s = ws @ t @ r \<and> r = d # r' \<and> wf_token t \<and> ends_token t d"
proof (induction s)
  case Nil
  then show ?case by simp
next
  case (Cons c s)
  consider (blank) "c \<in> set blank_chars" | (dq) "c = DQUOTE" | (sq) "c = SQUOTE"
    | (punct) "c \<in> {CHR ''{'', CHR ''}'', CHR '';'', CHR ''#''}" | (plain) "c \<notin> set special_start_chars"
    by (auto simp: blank_chars_def special_start_chars_def)
  then show ?case
  proof cases
    case blank
    then have "ParseToken s = (TOKEN_TYPE_NORMAL, t, r)"
      using Cons.prems by (auto simp: blank_chars_def)
    from Cons.IH [OF this] obtain ws d r' where "set ws \<subseteq> set blank_chars" "s = ws @ t @ r"
      "r = d # r'" "wf_token t" "ends_token t d" by blast
    with blank show ?thesis by (intro exI [of _ "c # ws"]) auto
  next
    case dq
    then have "ParseToken_loop TOKEN_STATE_DOUBLE_QUOTE [DQUOTE] s = (TOKEN_TYPE_NORMAL, t, r)"
      using Cons.prems by (simp add: ParseToken_def)
    from lex_double_quote_NORMAL [OF this] dq show ?thesis
      by (intro exI [of _ "[]"]) (auto simp: wf_token_def quoted_token_iff ends_token_def special_start_chars_def)
  next
    case sq
    then have "ParseToken_loop TOKEN_STATE_SINGLE_QUOTE [SQUOTE] s = (TOKEN_TYPE_NORMAL, t, r)"
      using Cons.prems by (simp add: ParseToken_def)
    from lex_single_quote_NORMAL [OF this] sq show ?thesis
      by (intro exI [of _ "[]"]) (auto simp: wf_token_def quoted_token_iff ends_token_def special_start_chars_def)
  next
    case punct
    with Cons.prems show ?thesis by (auto simp: ParseToken_def lex_comment_not_NORMAL)
  next
    case plain
    then have "ParseToken_loop TOKEN_STATE_TOKEN_TYPE_NORMAL [c] s = (TOKEN_TYPE_NORMAL, t, r)"
      using Cons.prems by (simp add: ParseToken_def special_start_chars_def)
    from lex_plain_NORMAL [OF this] plain show ?thesis
      by (intro exI [of _ "[]"]) (auto simp: wf_token_def ends_token_def)
  qed
qed

end
