(* ===== verification/Config_Parser.thy ===== *)
theory Config_Parser
  imports Config_Ast Config_Lexer
begin

section \<open>The configuration parser\<close>

text \<open>
  \<open>NginxConfigParser::Parse\<close> of src/config_parser.cc: the loop over the tokens, with its
  stack of pointers to the blocks that are open, the type of the last token and the two
  block counters.  \<open>top()\<close> and \<open>pop()\<close> of an empty stack and \<open>back()\<close> of an empty vector are
  undefined behaviour.  The result is the value returned and the configuration in \<open>*config\<close>.
\<close>

record parse_state =
  config :: NginxConfig
  config_stack :: "config_ptr list"
  last_token_type :: TokenType
  block_start_count :: int
  block_end_count :: int

datatype parse_next = Next parse_state | Return bool parse_state

definition init_parse :: "NginxConfig \<Rightarrow> parse_state" where
  "init_parse c =
     \<lparr>config = c, config_stack = [[]], last_token_type = TOKEN_TYPE_START,
      block_start_count = 0, block_end_count = 0\<rparr>"

text \<open>\<open>config_stack.top()\<close> and the statements of the block it points to.\<close>

definition stack_top :: "parse_state \<Rightarrow> (config_ptr \<times> NginxConfigStatement list) result" where
  "stack_top st =
     (case config_stack st of
        [] \<Rightarrow> Inl Undefined_Behaviour
      | p # _ \<Rightarrow>
          (case node_at p (config st) of
             None \<Rightarrow> Inl Undefined_Behaviour
           | Some c \<Rightarrow> Inr (p, statements c)))"

definition push_token :: "string \<Rightarrow> NginxConfigStatement \<Rightarrow> NginxConfigStatement" where
  "push_token t s = NginxConfigStatement (tokens s @ [t]) (child_block s)"

definition reset_child :: "NginxConfig \<Rightarrow> NginxConfigStatement \<Rightarrow> NginxConfigStatement" where
  "reset_child c s = NginxConfigStatement (tokens s) (Some c)"

definition normal_token :: "string \<Rightarrow> parse_state \<Rightarrow> parse_next result" where
  "normal_token token st =
     (if last_token_type st \<in> {TOKEN_TYPE_START, TOKEN_TYPE_STATEMENT_END, TOKEN_TYPE_START_BLOCK,
           TOKEN_TYPE_END_BLOCK, TOKEN_TYPE_NORMAL}
      then bind_res (stack_top st) (\<lambda>(p, ss).
        let st1 = (if last_token_type st \<noteq> TOKEN_TYPE_NORMAL
              then st\<lparr>config := update_at p (append_statement (NginxConfigStatement [] None)) (config st)\<rparr>
              else st)
        in bind_res (stack_top st1) (\<lambda>(p, ss).
             bind_res (vec_back ss) (\<lambda>_.
               Inr (Next (st1\<lparr>config := update_at p (update_back (push_token token)) (config st1),
                     last_token_type := TOKEN_TYPE_NORMAL\<rparr>)))))
      else Inr (Return False st))"

definition start_block :: "parse_state \<Rightarrow> parse_next result" where
  "start_block st =
     (let st1 = st\<lparr>block_start_count := block_start_count st + 1,
                   block_end_count := block_end_count st - 1\<rparr>
      in if last_token_type st1 \<noteq> TOKEN_TYPE_NORMAL \<and> last_token_type st1 \<noteq> TOKEN_TYPE_START_BLOCK
         then Inr (Return False st1)
         else bind_res (stack_top st1) (\<lambda>(p, ss).
           bind_res (vec_back ss) (\<lambda>_.
             Inr (Next (st1\<lparr>config := update_at p (update_back (reset_child (NginxConfig []))) (config st1),
                   config_stack := (p @ [length ss - 1]) # config_stack st1,
                   last_token_type := TOKEN_TYPE_START_BLOCK\<rparr>)))))"

definition end_block :: "parse_state \<Rightarrow> parse_next result" where
  "end_block st =
     (let st1 = st\<lparr>block_start_count := block_start_count st - 1,
                   block_end_count := block_end_count st + 1\<rparr>
      in if last_token_type st1 \<noteq> TOKEN_TYPE_STATEMENT_END \<and> last_token_type st1 \<noteq> TOKEN_TYPE_START_BLOCK
            \<and> last_token_type st1 \<noteq> TOKEN_TYPE_END_BLOCK \<and> last_token_type st1 \<noteq> TOKEN_TYPE_NORMAL
         then Inr (Return False st1)
         else (case config_stack st1 of
             [] \<Rightarrow> Inl Undefined_Behaviour
           | _ # stack \<Rightarrow>
               Inr (Next (st1\<lparr>config_stack := stack, last_token_type := TOKEN_TYPE_END_BLOCK\<rparr>))))"

definition end_of_file :: "parse_state \<Rightarrow> parse_next result" where
  "end_of_file st =
     (if last_token_type st \<noteq> TOKEN_TYPE_STATEMENT_END \<and> last_token_type st \<noteq> TOKEN_TYPE_END_BLOCK
      then Inr (Return False st)
      else if block_start_count st \<noteq> 0 then Inr (Return False st)
      else if block_end_count st \<noteq> 0 then Inr (Return False st)
      else Inr (Return True st))"

text \<open>One turn of the loop of \<open>Parse\<close>, after \<open>ParseToken\<close>.\<close>

definition parse_step :: "TokenType \<Rightarrow> string \<Rightarrow> parse_state \<Rightarrow> parse_next result" where
  "parse_step token_type token st =
     (if token_type = TOKEN_TYPE_ERROR then Inr (Return False st)
      else if token_type = TOKEN_TYPE_COMMENT then Inr (Next st)
      else if token_type = TOKEN_TYPE_START then Inr (Return False st)
      else if token_type = TOKEN_TYPE_NORMAL then normal_token token st
      else if token_type = TOKEN_TYPE_STATEMENT_END then
        (if last_token_type st \<noteq> TOKEN_TYPE_NORMAL then Inr (Return False st)
         else Inr (Next (st\<lparr>last_token_type := TOKEN_TYPE_STATEMENT_END\<rparr>)))
      else if token_type = TOKEN_TYPE_START_BLOCK then start_block st
      else if token_type = TOKEN_TYPE_END_BLOCK then end_block st
      else end_of_file st)"

lemma parse_step_EOF: "parse_step TOKEN_TYPE_EOF t st \<noteq> Inr (Next st')"
  by (simp add: parse_step_def end_of_file_def)

function (sequential) Parse_loop :: "string \<Rightarrow> parse_state \<Rightarrow> (bool \<times> NginxConfig) result" where
  "Parse_loop input st =
     (case ParseToken input of
        (token_type, token, rest) \<Rightarrow>
          (case parse_step token_type token st of
             Inl e \<Rightarrow> Inl e
           | Inr (Return b st') \<Rightarrow> Inr (b, config st')
           | Inr (Next st') \<Rightarrow> Parse_loop rest st'))"
  by pat_completeness auto
termination
  by (relation "measure (\<lambda>(input, st). length input)")
     (auto, metis ParseToken_shrinks parse_step_EOF)

declare Parse_loop.simps [simp del]

definition Parse :: "string \<Rightarrow> NginxConfig \<Rightarrow> (bool \<times> NginxConfig) result" where
  "Parse input c = Parse_loop input (init_parse c)"

subsection \<open>Steps of the loop\<close>

lemma Parse_loop_step:
  "ParseToken s = (tt, t, r) \<Longrightarrow> parse_step tt t st = Inr (Next st') \<Longrightarrow> Parse_loop s st = Parse_loop r st'"
  by (subst Parse_loop.simps) simp

lemma Parse_loop_blank: "c \<in> {SP, TAB, LF, CR} \<Longrightarrow> Parse_loop (c # s) st = Parse_loop s st"
  by (subst (1 2) Parse_loop.simps) (simp only: ParseToken_skip_blank)

lemma Parse_loop_blanks:
  "set ws \<subseteq> {SP, TAB, LF, CR} \<Longrightarrow> Parse_loop (ws @ s) st = Parse_loop s st"
proof (induction ws)
  case (Cons w ws)
  then show ?case using Parse_loop_blank [of w "ws @ s" st] by simp
qed simp

lemma Parse_loop_EOF:
  "Parse_loop [] st = (case end_of_file st of Inr (Return b st') \<Rightarrow> Inr (b, config st') | _ \<Rightarrow> Parse_loop [] st)"
  by (subst Parse_loop.simps) (auto simp: parse_step_def end_of_file_def)

text \<open>The types after which a word starts a statement.\<close>

definition starts_statement :: "TokenType \<Rightarrow> bool" where
  "starts_statement tt \<longleftrightarrow> tt \<in> {TOKEN_TYPE_START, TOKEN_TYPE_STATEMENT_END, TOKEN_TYPE_START_BLOCK,
     TOKEN_TYPE_END_BLOCK}"

lemma starts_statement_simps [simp]:
  "starts_statement TOKEN_TYPE_START" "starts_statement TOKEN_TYPE_STATEMENT_END"
  "starts_statement TOKEN_TYPE_START_BLOCK" "starts_statement TOKEN_TYPE_END_BLOCK"
  "\<not> starts_statement TOKEN_TYPE_NORMAL"
  by (simp_all add: starts_statement_def)

lemma parse_step_simps:
  "parse_step TOKEN_TYPE_NORMAL t st = normal_token t st"
  "parse_step TOKEN_TYPE_START_BLOCK t st = start_block st"
  "parse_step TOKEN_TYPE_END_BLOCK t st = end_block st"
  "parse_step TOKEN_TYPE_EOF t st = end_of_file st"
  "parse_step TOKEN_TYPE_COMMENT t st = Inr (Next st)"
  "parse_step TOKEN_TYPE_ERROR t st = Inr (Return False st)"
  "parse_step TOKEN_TYPE_START t st = Inr (Return False st)"
  "parse_step TOKEN_TYPE_STATEMENT_END t st =
     (if last_token_type st \<noteq> TOKEN_TYPE_NORMAL then Inr (Return False st)
      else Inr (Next (st\<lparr>last_token_type := TOKEN_TYPE_STATEMENT_END\<rparr>)))"
  by (simp_all add: parse_step_def)

lemma push_token_new [simp]: "push_token t (NginxConfigStatement ts ch) = NginxConfigStatement (ts @ [t]) ch"
  by (simp add: push_token_def)

lemma reset_child_new [simp]: "reset_child c (NginxConfigStatement ts ch) = NginxConfigStatement ts (Some c)"
  by (simp add: reset_child_def)

lemma first_word_step:
  assumes "config_stack st = p # ps" and "node_at p (config st) = Some b"
    and "starts_statement (last_token_type st)"
  shows "normal_token t st =
    Inr (Next (st\<lparr>config := update_at p (append_statement (NginxConfigStatement [t] None)) (config st),
      last_token_type := TOKEN_TYPE_NORMAL\<rparr>))"
  using assms
  by (auto simp: normal_token_def starts_statement_def stack_top_def Let_def update_at_twice)

text \<open>The statement being read is the last one of the block on top of the stack.\<close>

definition reading :: "NginxConfigStatement \<Rightarrow> TokenType \<Rightarrow> config_ptr \<Rightarrow> parse_state \<Rightarrow> parse_state" where
  "reading s tt p st =
     st\<lparr>config := update_at p (append_statement s) (config st), last_token_type := tt\<rparr>"

lemma next_word_step:
  assumes "config_stack st = p # ps" and "node_at p (config st) = Some b"
  shows "normal_token t (reading (NginxConfigStatement us None) TOKEN_TYPE_NORMAL p st) =
    Inr (Next (reading (NginxConfigStatement (us @ [t]) None) TOKEN_TYPE_NORMAL p st))"
  using assms
  by (simp add: normal_token_def reading_def stack_top_def Let_def update_at_twice)

lemma start_block_step:
  assumes "config_stack st = p # ps" and "node_at p (config st) = Some b"
  shows "start_block (reading (NginxConfigStatement us None) TOKEN_TYPE_NORMAL p st) =
    Inr (Next ((reading (NginxConfigStatement us (Some (NginxConfig []))) TOKEN_TYPE_START_BLOCK p st)
      \<lparr>config_stack := (p @ [length (statements b)]) # p # ps,
       block_start_count := block_start_count st + 1, block_end_count := block_end_count st - 1\<rparr>))"
  using assms
  by (simp add: start_block_def reading_def stack_top_def Let_def update_at_twice)

lemma end_block_step:
  assumes "config_stack st = p # ps"
    and "last_token_type st \<in> {TOKEN_TYPE_STATEMENT_END, TOKEN_TYPE_START_BLOCK, TOKEN_TYPE_END_BLOCK}"
  shows "end_block st = Inr (Next (st\<lparr>config_stack := ps, last_token_type := TOKEN_TYPE_END_BLOCK,
    block_start_count := block_start_count st - 1, block_end_count := block_end_count st + 1\<rparr>))"
  using assms by (auto simp: end_block_def Let_def)

subsection \<open>Reading back what the printer wrote\<close>

abbreviation wf_statement :: "NginxConfigStatement \<Rightarrow> bool" where
  "wf_statement \<equiv> all_in_statement (\<lambda>ts. ts \<noteq> [] \<and> list_all wf_token ts)"

definition wf_config :: "NginxConfig \<Rightarrow> bool" where
  "wf_config = all_statements (\<lambda>ts. ts \<noteq> [] \<and> list_all wf_token ts)"

lemma ends_token_separators [simp]: "ends_token t SP" "ends_token t (CHR '';'')"
  by (simp_all add: ends_token_def normal_end_chars_def after_quote_chars_def)

lemma Parse_loop_word:
  assumes "wf_token t" and "d = SP \<or> d = CHR '';''" and "normal_token t st = Inr (Next st')"
  shows "Parse_loop (t @ d # r) st = Parse_loop (d # r) st'"
proof (rule Parse_loop_step)
  show "ParseToken (t @ d # r) = (TOKEN_TYPE_NORMAL, t, d # r)"
    using assms(1,2) by (intro ParseToken_word) auto
  show "parse_step TOKEN_TYPE_NORMAL t st = Inr (Next st')"
    using assms(3) by (simp add: parse_step_simps)
qed

lemma Parse_loop_more_words:
  assumes "list_all wf_token ts" and "d = SP \<or> d = CHR '';''"
    and "config_stack st = p # ps" and "node_at p (config st) = Some b"
  shows "Parse_loop (concat (map (\<lambda>u. SP # u) ts) @ d # r)
      (reading (NginxConfigStatement us None) TOKEN_TYPE_NORMAL p st) =
    Parse_loop (d # r) (reading (NginxConfigStatement (us @ ts) None) TOKEN_TYPE_NORMAL p st)"
  using assms(1)
proof (induction ts arbitrary: us)
  case (Cons t ts)
  obtain d' r' where r': "concat (map (\<lambda>u. SP # u) ts) @ d # r = d' # r'" "d' = SP \<or> d' = CHR '';''"
    using assms(2) by (cases ts) auto
  have "Parse_loop (t @ d' # r') (reading (NginxConfigStatement us None) TOKEN_TYPE_NORMAL p st) =
      Parse_loop (d' # r') (reading (NginxConfigStatement (us @ [t]) None) TOKEN_TYPE_NORMAL p st)"
    using Cons.prems r'(2) next_word_step [OF assms(3,4)] by (intro Parse_loop_word) simp_all
  also have "\<dots> = Parse_loop (d # r) (reading (NginxConfigStatement ((us @ [t]) @ ts) None) TOKEN_TYPE_NORMAL p st)"
    unfolding r'(1) [symmetric] using Cons.prems by (intro Cons.IH) simp
  finally show ?case using r'(1) by (simp add: Parse_loop_blank)
qed simp

lemma Parse_loop_words:
  assumes "ts \<noteq> []" and "list_all wf_token ts" and "d = SP \<or> d = CHR '';''"
    and st: "config_stack st = p # ps" "node_at p (config st) = Some b"
    and "starts_statement (last_token_type st)"
  shows "Parse_loop (indent depth @ join_tokens ts @ d # r) st =
    Parse_loop (d # r) (reading (NginxConfigStatement ts None) TOKEN_TYPE_NORMAL p st)"
proof -
  obtain t us where ts: "ts = t # us" using assms(1) by (cases ts) auto
  obtain d' r' where r': "concat (map (\<lambda>u. SP # u) us) @ d # r = d' # r'" "d' = SP \<or> d' = CHR '';''"
    using assms(3) by (cases us) auto
  have "Parse_loop (indent depth @ join_tokens ts @ d # r) st = Parse_loop (t @ d' # r') st"
    using r' ts by (subst Parse_loop_blanks) (auto simp: indent_def)
  also have "\<dots> = Parse_loop (d' # r') (reading (NginxConfigStatement [t] None) TOKEN_TYPE_NORMAL p st)"
    using assms(2) r'(2) ts first_word_step [OF st assms(6)]
    by (intro Parse_loop_word) (auto simp: reading_def)
  also have "\<dots> = Parse_loop (d # r) (reading (NginxConfigStatement ts None) TOKEN_TYPE_NORMAL p st)"
    using Parse_loop_more_words [OF _ assms(3) st, of us r "[t]"] assms(2) ts by (simp add: r')
  finally show ?thesis .
qed

definition ended_by :: "NginxConfigStatement \<Rightarrow> TokenType" where
  "ended_by s = (if child_block s = None then TOKEN_TYPE_STATEMENT_END else TOKEN_TYPE_END_BLOCK)"

lemma starts_statement_ended_by [simp]: "starts_statement (ended_by s)"
  by (simp add: ended_by_def)

lemma Parse_loop_plain_statement:
  assumes "wf_statement (NginxConfigStatement ts None)"
    and st: "config_stack st = p # ps" "node_at p (config st) = Some b"
    and "starts_statement (last_token_type st)"
  shows "Parse_loop (statement_ToString depth (NginxConfigStatement ts None) @ r) st =
    Parse_loop r (reading (NginxConfigStatement ts None) TOKEN_TYPE_STATEMENT_END p st)"
proof -
  have "Parse_loop (statement_ToString depth (NginxConfigStatement ts None) @ r) st =
      Parse_loop (CHR '';'' # LF # r) (reading (NginxConfigStatement ts None) TOKEN_TYPE_NORMAL p st)"
    using Parse_loop_words [OF _ _ _ st assms(4), of ts "CHR '';''" depth "LF # r"] assms(1) by simp
  also have "\<dots> = Parse_loop (LF # r) (reading (NginxConfigStatement ts None) TOKEN_TYPE_STATEMENT_END p st)"
    by (rule Parse_loop_step [OF ParseToken_punctuation(4)]) (simp add: parse_step_simps reading_def)
  finally show ?thesis by (simp add: Parse_loop_blank)
qed

lemma append_statement_child:
  assumes "node_at p c = Some b"
  shows "update_at (p @ [length (statements b)]) f
      (update_at p (append_statement (NginxConfigStatement ts (Some x))) c) =
    update_at p (append_statement (NginxConfigStatement ts (Some (f x)))) c"
proof -
  have "update_at [length (statements b)] f (append_statement (NginxConfigStatement ts (Some x)) b) =
      append_statement (NginxConfigStatement ts (Some (f x))) b"
    by (simp add: append_statement_def)
  then show ?thesis
    by (simp only: update_at_append update_at_twice) (rule update_at_cong [OF assms])
qed

lemma node_at_child:
  assumes "node_at p c = Some b"
  shows "node_at (p @ [length (statements b)])
      (update_at p (append_statement (NginxConfigStatement ts (Some x))) c) = Some x"
  using assms by (simp add: node_at_append append_statement_def)

text \<open>The state once the text of all statements of \<open>c\<close> has been read.\<close>

definition read_block :: "NginxConfig \<Rightarrow> config_ptr \<Rightarrow> parse_state \<Rightarrow> parse_state" where
  "read_block c p st =
     st\<lparr>config := update_at p (\<lambda>b. NginxConfig (statements b @ statements c)) (config st),
        last_token_type :=
          (if statements c = [] then last_token_type st else ended_by (last (statements c)))\<rparr>"

definition reads_statement :: "NginxConfigStatement \<Rightarrow> bool" where
  "reads_statement s \<longleftrightarrow> (\<forall>depth st p ps b r. wf_statement s \<longrightarrow> config_stack st = p # ps \<longrightarrow>
     node_at p (config st) = Some b \<longrightarrow> starts_statement (last_token_type st) \<longrightarrow>
     Parse_loop (statement_ToString depth s @ r) st = Parse_loop r (reading s (ended_by s) p st))"

definition reads_config :: "NginxConfig \<Rightarrow> bool" where
  "reads_config c \<longleftrightarrow> (\<forall>depth st p ps b r. wf_config c \<longrightarrow> config_stack st = p # ps \<longrightarrow>
     node_at p (config st) = Some b \<longrightarrow> starts_statement (last_token_type st) \<longrightarrow>
     Parse_loop (config_ToString depth c @ r) st = Parse_loop r (read_block c p st))"

lemma reads_block_statement:
  assumes "reads_config child"
  shows "reads_statement (NginxConfigStatement ts (Some child))"
  unfolding reads_statement_def
proof (intro allI impI)
  fix depth p ps b r and st :: parse_state
  let ?s = "\<lambda>c. NginxConfigStatement ts (Some c)"
  assume wf: "wf_statement (?s child)" and st: "config_stack st = p # ps" "node_at p (config st) = Some b"
    and start: "starts_statement (last_token_type st)"
  define st1 where "st1 = (reading (?s (NginxConfig [])) TOKEN_TYPE_START_BLOCK p st)
    \<lparr>config_stack := (p @ [length (statements b)]) # p # ps,
     block_start_count := block_start_count st + 1, block_end_count := block_end_count st - 1\<rparr>"
  let ?q = "p @ [length (statements b)]"
  let ?tail = "indent depth @ CHR ''}'' # LF # r"
  have wf': "ts \<noteq> []" "list_all wf_token ts" "wf_config child" using wf by (simp_all add: wf_config_def)
  have q: "config_stack st1 = ?q # p # ps" "node_at ?q (config st1) = Some (NginxConfig [])"
    "starts_statement (last_token_type st1)"
    using node_at_child [OF st(2)] by (simp_all add: st1_def reading_def)
  have "Parse_loop (statement_ToString depth (?s child) @ r) st =
      Parse_loop (SP # CHR ''{'' # LF # config_ToString (depth + 1) child @ ?tail)
        (reading (NginxConfigStatement ts None) TOKEN_TYPE_NORMAL p st)"
    using Parse_loop_words [OF wf'(1,2) _ st start, of SP depth] by simp
  also have "\<dots> = Parse_loop (CHR ''{'' # LF # config_ToString (depth + 1) child @ ?tail)
        (reading (NginxConfigStatement ts None) TOKEN_TYPE_NORMAL p st)"
    by (rule Parse_loop_blank) simp
  also have "\<dots> = Parse_loop (LF # config_ToString (depth + 1) child @ ?tail) st1"
    using start_block_step [OF st] unfolding st1_def
    by (intro Parse_loop_step [OF ParseToken_punctuation(2)]) (simp add: parse_step_simps)
  also have "\<dots> = Parse_loop ?tail (read_block child ?q st1)"
    using assms wf'(3) q by (simp add: Parse_loop_blank reads_config_def)
  also have "\<dots> = Parse_loop (CHR ''}'' # LF # r) (read_block child ?q st1)"
    by (rule Parse_loop_blanks) (auto simp: indent_def)
  also have "\<dots> = Parse_loop (LF # r) (reading (?s child) TOKEN_TYPE_END_BLOCK p st)"
  proof (rule Parse_loop_step [OF ParseToken_punctuation(3)])
    have "last_token_type (read_block child ?q st1) \<in>
        {TOKEN_TYPE_STATEMENT_END, TOKEN_TYPE_START_BLOCK, TOKEN_TYPE_END_BLOCK}"
      by (simp add: read_block_def ended_by_def st1_def reading_def)
    moreover have "update_at ?q (\<lambda>b. NginxConfig (statements b @ statements child)) (config st1) =
        update_at p (append_statement (?s child)) (config st)"
      using append_statement_child [OF st(2)] by (simp add: st1_def reading_def)
    ultimately show "parse_step TOKEN_TYPE_END_BLOCK ''}'' (read_block child ?q st1) =
        Inr (Next (reading (?s child) TOKEN_TYPE_END_BLOCK p st))"
      using st q(1) by (subst parse_step_simps, subst end_block_step)
        (auto simp: read_block_def st1_def reading_def)
  qed
  also have "\<dots> = Parse_loop r (reading (?s child) (ended_by (?s child)) p st)"
    by (simp add: Parse_loop_blank ended_by_def)
  finally show "Parse_loop (statement_ToString depth (?s child) @ r) st = \<dots>" .
qed

lemma reads_statements:
  assumes "\<And>s. s \<in> set ss \<Longrightarrow> reads_statement s"
  shows "reads_config (NginxConfig ss)"
  unfolding reads_config_def
proof (intro allI impI)
  fix depth p ps b r and st :: parse_state
  assume "wf_config (NginxConfig ss)" "config_stack st = p # ps" "node_at p (config st) = Some b"
    "starts_statement (last_token_type st)"
  with assms show "Parse_loop (config_ToString depth (NginxConfig ss) @ r) st =
      Parse_loop r (read_block (NginxConfig ss) p st)"
  proof (induction ss arbitrary: st b)
    case Nil
    then show ?case by (simp add: read_block_def update_at_id)
  next
    case (Cons s ss)
    define st1 where "st1 = reading s (ended_by s) p st"
    have wf: "wf_statement s" "wf_config (NginxConfig ss)" using Cons.prems(2) by (simp_all add: wf_config_def)
    have st1: "config_stack st1 = p # ps" "node_at p (config st1) = Some (append_statement s b)"
      "starts_statement (last_token_type st1)"
      using Cons.prems by (simp_all add: st1_def reading_def)
    have "Parse_loop (config_ToString depth (NginxConfig (s # ss)) @ r) st =
        Parse_loop (statement_ToString depth s @ config_ToString depth (NginxConfig ss) @ r) st"
      by simp
    also have "\<dots> = Parse_loop (config_ToString depth (NginxConfig ss) @ r) st1"
      using Cons.prems wf(1) unfolding st1_def by (simp add: reads_statement_def)
    also have "\<dots> = Parse_loop r (read_block (NginxConfig ss) p st1)"
      using Cons.prems(1) wf(2) st1 by (intro Cons.IH) auto
    also have "read_block (NginxConfig ss) p st1 = read_block (NginxConfig (s # ss)) p st"
      by (auto simp: read_block_def st1_def reading_def update_at_twice)
    finally show ?case .
  qed
qed

lemma reads_plain_statement: "reads_statement (NginxConfigStatement ts None)"
  unfolding reads_statement_def
proof (intro allI impI)
  fix depth p ps b r and st :: parse_state
  assume "wf_statement (NginxConfigStatement ts None)" "config_stack st = p # ps"
    "node_at p (config st) = Some b" "starts_statement (last_token_type st)"
  then show "Parse_loop (statement_ToString depth (NginxConfigStatement ts None) @ r) st =
      Parse_loop r (reading (NginxConfigStatement ts None) (ended_by (NginxConfigStatement ts None)) p st)"
    unfolding ended_by_def by (simp add: Parse_loop_plain_statement del: statement_ToString.simps)
qed

lemma reads_all: "reads_config c" and "reads_statement s"
proof (induction c and s rule: NginxConfig.induct NginxConfigStatement.induct)
  case (NginxConfig ss)
  then show ?case by (intro reads_statements)
next
  case (NginxConfigStatement ts child)
  show ?case
  proof (cases child)
    case None
    then show ?thesis by (simp add: reads_plain_statement)
  next
    case (Some c)
    with NginxConfigStatement have "reads_config c" by simp
    with Some show ?thesis by (simp add: reads_block_statement)
  qed
qed

lemma Parse_printed:
  assumes "wf_config c" and "statements c \<noteq> []"
  shows "Parse (config_ToString depth c) (NginxConfig []) = Inr (True, c)"
proof -
  let ?st = "init_parse (NginxConfig [])"
  have "Parse_loop (config_ToString depth c @ []) ?st = Parse_loop [] (read_block c [] ?st)"
    using reads_all(1) [of c] assms(1) by (simp add: reads_config_def init_parse_def del: append_Nil2)
  moreover have "end_of_file (read_block c [] ?st) = Inr (Return True (read_block c [] ?st))"
    using assms(2) by (simp add: end_of_file_def read_block_def init_parse_def ended_by_def)
  ultimately show ?thesis
    by (simp add: Parse_def Parse_loop_EOF read_block_def init_parse_def)
qed

subsection \<open>What the parser builds\<close>

lemma wf_append_statement:
  "all_statements P c \<Longrightarrow> all_in_statement P s \<Longrightarrow> all_statements P (append_statement s c)"
  by (simp add: all_statements_iff)

lemma wf_update_back:
  assumes "all_statements P c" and "\<And>s. all_in_statement P s \<Longrightarrow> all_in_statement P (f s)"
  shows "all_statements P (update_back f c)"
proof (cases "statements c" rule: rev_cases)
  case Nil
  then show ?thesis by (simp add: update_back_def)
next
  case (snoc ss s)
  with assms show ?thesis by (simp add: update_back_def all_statements_iff list_update_append)
qed

lemma push_token_wf:
  "wf_statement s \<Longrightarrow> wf_token t \<Longrightarrow> wf_statement (push_token t s)"
  by (simp add: all_in_statement_iff push_token_def)

lemma reset_child_wf: "wf_statement s \<Longrightarrow> wf_statement (reset_child (NginxConfig []) s)"
  by (simp add: all_in_statement_iff reset_child_def)

fun next_state :: "parse_next \<Rightarrow> parse_state" where
  "next_state (Next st) = st"
| "next_state (Return b st) = st"

text \<open>What \<open>normal_token\<close> does to the configuration, by the type of the last token.\<close>

lemma normal_token_cases:
  assumes "normal_token t st = Inr nx"
  obtains (error) "nx = Return False st"
  | (first) p ss where "stack_top st = Inr (p, ss)" "starts_statement (last_token_type st)"
      "nx = Next (reading (NginxConfigStatement [t] None) TOKEN_TYPE_NORMAL p st)"
  | (more) p ss where "stack_top st = Inr (p, ss)" "ss \<noteq> []" "last_token_type st = TOKEN_TYPE_NORMAL"
      "nx = Next (st\<lparr>config := update_at p (update_back (push_token t)) (config st)\<rparr>)"
proof (cases "last_token_type st = TOKEN_TYPE_NORMAL")
  case True
  with assms obtain p ss where "stack_top st = Inr (p, ss)" "ss \<noteq> []"
    "nx = Next (st\<lparr>config := update_at p (update_back (push_token t)) (config st), last_token_type := TOKEN_TYPE_NORMAL\<rparr>)"
    by (auto simp: normal_token_def Let_def res_simps vec_back_def split: if_splits)
  moreover have "st\<lparr>config := update_at p (update_back (push_token t)) (config st), last_token_type := TOKEN_TYPE_NORMAL\<rparr>
      = st\<lparr>config := update_at p (update_back (push_token t)) (config st)\<rparr>" using True by (cases st) simp
  ultimately show ?thesis using True more by simp
next
  case False
  show ?thesis
  proof (cases "starts_statement (last_token_type st)")
    case True
    with assms obtain p ss where top: "stack_top st = Inr (p, ss)"
      by (auto simp: normal_token_def Let_def res_simps starts_statement_def split: if_splits)
    then obtain ps b where "config_stack st = p # ps" "node_at p (config st) = Some b"
      by (auto simp: stack_top_def split: list.splits option.splits)
    from first_word_step [OF this True, of t] assms top True show ?thesis
      by (intro first) (simp_all add: reading_def)
  next
    case no_start: False
    with False assms show ?thesis
      by (intro error) (auto simp: normal_token_def starts_statement_def)
  qed
qed

lemma start_block_cases:
  assumes "start_block st = Inr nx"
  obtains (error) st' where "nx = Return False st'" "config st' = config st"
  | (opened) p ss where "stack_top st = Inr (p, ss)" "ss \<noteq> []"
      "last_token_type st \<in> {TOKEN_TYPE_NORMAL, TOKEN_TYPE_START_BLOCK}"
      "nx = Next (st\<lparr>block_start_count := block_start_count st + 1,
         block_end_count := block_end_count st - 1,
         config := update_at p (update_back (reset_child (NginxConfig []))) (config st),
         config_stack := (p @ [length ss - 1]) # config_stack st,
         last_token_type := TOKEN_TYPE_START_BLOCK\<rparr>)"
  using assms
  by (auto simp: start_block_def Let_def res_simps stack_top_def vec_back_def
      split: if_splits list.splits option.splits)

lemma end_block_cases:
  assumes "end_block st = Inr nx"
  obtains (error) st' where "nx = Return False st'" "config st' = config st"
  | (closed) p ps where "config_stack st = p # ps"
      "last_token_type st \<in> {TOKEN_TYPE_STATEMENT_END, TOKEN_TYPE_START_BLOCK, TOKEN_TYPE_END_BLOCK, TOKEN_TYPE_NORMAL}"
      "nx = Next (st\<lparr>block_start_count := block_start_count st - 1,
         block_end_count := block_end_count st + 1, config_stack := ps,
         last_token_type := TOKEN_TYPE_END_BLOCK\<rparr>)"
  using assms by (auto simp: end_block_def Let_def split: if_splits list.splits)

lemma end_of_file_cases:
  assumes "end_of_file st = Inr nx"
  obtains b where "nx = Return b st"
  using assms by (auto simp: end_of_file_def split: if_splits)

lemma parse_step_wf:
  assumes "parse_step tt t st = Inr nx" and "wf_config (config st)"
    and "tt = TOKEN_TYPE_NORMAL \<Longrightarrow> wf_token t"
  shows "wf_config (config (next_state nx))"
proof (cases tt)
  case TOKEN_TYPE_NORMAL
  with assms have "normal_token t st = Inr nx" "wf_token t" by (simp_all add: parse_step_simps)
  then show ?thesis
  proof (cases rule: normal_token_cases [consumes 1])
    case (first p ss)
    with assms(2) \<open>wf_token t\<close> show ?thesis
      by (simp add: reading_def wf_config_def all_statements_update_at wf_append_statement)
  next
    case (more p ss)
    with assms(2) \<open>wf_token t\<close> show ?thesis
      by (simp add: wf_config_def all_statements_update_at wf_update_back push_token_wf)
  qed (use assms(2) in simp)
next
  case TOKEN_TYPE_START_BLOCK
  with assms(1) have "start_block st = Inr nx" by (simp add: parse_step_simps)
  then show ?thesis
  proof (cases rule: start_block_cases [consumes 1])
    case (opened p ss)
    with assms(2) show ?thesis
      by (simp add: wf_config_def all_statements_update_at wf_update_back reset_child_wf)
  qed (use assms(2) in simp)
next
  case TOKEN_TYPE_END_BLOCK
  with assms(1) have "end_block st = Inr nx" by (simp add: parse_step_simps)
  then show ?thesis using assms(2) by (cases rule: end_block_cases [consumes 1]) simp_all
next
  case TOKEN_TYPE_EOF
  with assms(1) have "end_of_file st = Inr nx" by (simp add: parse_step_simps)
  then show ?thesis using assms(2) by (cases rule: end_of_file_cases [consumes 1]) simp
qed (use assms(1,2) in \<open>auto simp: parse_step_simps split: if_splits\<close>)

lemma Parse_loop_wf:
  "Parse_loop s st = Inr (b, c) \<Longrightarrow> wf_config (config st) \<Longrightarrow> wf_config c"
proof (induction s st rule: Parse_loop.induct)
  case (1 s st)
  obtain tt t r where lex: "ParseToken s = (tt, t, r)" by (cases "ParseToken s") auto
  obtain nx where nx: "parse_step tt t st = Inr nx"
    using "1.prems"(1) lex by (subst (asm) Parse_loop.simps) (auto split: sum.splits)
  have "tt = TOKEN_TYPE_NORMAL \<Longrightarrow> wf_token t" using ParseToken_NORMAL [of s t r] lex by auto
  with parse_step_wf [OF nx "1.prems"(2)] have wf: "wf_config (config (next_state nx))" by simp
  show ?case
  proof (cases nx)
    case (Next st')
    with lex nx "1.prems"(1) have "Parse_loop r st' = Inr (b, c)"
      by (subst (asm) Parse_loop.simps) simp
    with "1.IH" lex nx Next wf show ?thesis by simp
  next
    case (Return b' st')
    with lex nx "1.prems"(1) have "c = config st'" by (subst (asm) Parse_loop.simps) simp
    with wf Return show ?thesis by simp
  qed
qed

subsection \<open>The invariant of the loop\<close>

text \<open>The states the loop goes through, for any configuration handed in and any tokens.\<close>

inductive parse_reaches :: "parse_state \<Rightarrow> bool" where
  start: "parse_reaches (init_parse c)"
| step: "parse_reaches st \<Longrightarrow> parse_step tt t st = Inr (Next st') \<Longrightarrow> parse_reaches st'"

text \<open>Each pointer of the stack points to the block of a statement of the one below.\<close>

fun stack_chain :: "config_ptr list \<Rightarrow> bool" where
  "stack_chain [] = True"
| "stack_chain [p] = (p = [])"
| "stack_chain (p # q # ps) \<longleftrightarrow> p \<noteq> [] \<and> butlast p = q \<and> stack_chain (q # ps)"

definition counters_inv :: "parse_state \<Rightarrow> bool" where
  "counters_inv st \<longleftrightarrow> block_end_count st = - block_start_count st \<and>
     int (length (config_stack st)) = block_start_count st + 1"

definition pointers_inv :: "parse_state \<Rightarrow> bool" where
  "pointers_inv st \<longleftrightarrow> stack_chain (config_stack st) \<and>
     (config_stack st = [] \<longrightarrow> last_token_type st = TOKEN_TYPE_END_BLOCK) \<and>
     (config_stack st \<noteq> [] \<longrightarrow> (\<exists>p ss. stack_top st = Inr (p, ss) \<and>
        (last_token_type st = TOKEN_TYPE_NORMAL \<longrightarrow> ss \<noteq> []) \<and>
        (last_token_type st = TOKEN_TYPE_START_BLOCK \<longrightarrow> ss = [])))"

definition root_inv :: "parse_state \<Rightarrow> bool" where
  "root_inv st \<longleftrightarrow> (last_token_type st = TOKEN_TYPE_START \<longrightarrow> config_stack st = [[]]) \<and>
     (last_token_type st \<noteq> TOKEN_TYPE_START \<longrightarrow> statements (config st) \<noteq> [])"

definition parse_inv :: "parse_state \<Rightarrow> bool" where
  "parse_inv st \<longleftrightarrow> counters_inv st \<and> pointers_inv st \<and> root_inv st"

lemmas parse_inv_defs = parse_inv_def counters_inv_def pointers_inv_def root_inv_def

lemma stack_top_eq:
  "stack_top st = Inr (p, ss) \<longleftrightarrow>
   (\<exists>ps c. config_stack st = p # ps \<and> node_at p (config st) = Some c \<and> statements c = ss)"
  by (auto simp: stack_top_def split: list.splits option.splits)

lemma statements_update_at_nonempty:
  assumes "statements c \<noteq> []" and "\<And>x. statements x \<noteq> [] \<Longrightarrow> statements (f x) \<noteq> []"
  shows "statements (update_at p f c) \<noteq> []"
  using assms by (cases "(p, f, c)" rule: update_at.cases) auto

lemma statements_update_back_nonempty [simp]:
  "statements (update_back f c) = [] \<longleftrightarrow> statements c = []"
  by (simp add: update_back_def)

lemma statements_update_at_back [simp]:
  "statements c \<noteq> [] \<Longrightarrow> statements (update_at p (update_back f) c) \<noteq> []"
  by (rule statements_update_at_nonempty) simp_all

lemma parse_inv_init: "parse_inv (init_parse c)"
  by (simp add: parse_inv_defs init_parse_def stack_top_def)

lemma parse_inv_first:
  assumes "parse_inv st" and top: "stack_top st = Inr (p, ss)" and "starts_statement (last_token_type st)"
  shows "parse_inv (reading (NginxConfigStatement [t] None) TOKEN_TYPE_NORMAL p st)"
proof -
  have "statements (update_at p (append_statement (NginxConfigStatement [t] None)) (config st)) \<noteq> []"
  proof (cases "last_token_type st = TOKEN_TYPE_START")
    case True
    with assms have "p = []" by (auto simp: parse_inv_defs stack_top_eq)
    then show ?thesis by simp
  next
    case False
    with assms show ?thesis by (intro statements_update_at_nonempty) (auto simp: parse_inv_defs)
  qed
  with assms show ?thesis by (auto simp: parse_inv_defs reading_def stack_top_eq)
qed

lemma parse_inv_more:
  assumes "parse_inv st" and "stack_top st = Inr (p, ss)" "ss \<noteq> []" and "last_token_type st = TOKEN_TYPE_NORMAL"
  shows "parse_inv (st\<lparr>config := update_at p (update_back f) (config st)\<rparr>)"
  using assms by (auto simp: parse_inv_defs stack_top_eq)

lemma parse_inv_opened:
  assumes "parse_inv st" and top: "stack_top st = Inr (p, ss)" "ss \<noteq> []"
    and "last_token_type st \<in> {TOKEN_TYPE_NORMAL, TOKEN_TYPE_START_BLOCK}"
  shows "parse_inv (st\<lparr>block_start_count := block_start_count st + 1,
         block_end_count := block_end_count st - 1,
         config := update_at p (update_back (reset_child (NginxConfig []))) (config st),
         config_stack := (p @ [length ss - 1]) # config_stack st,
         last_token_type := TOKEN_TYPE_START_BLOCK\<rparr>)" (is "parse_inv ?st'")
proof -
  from top obtain ps c where c: "config_stack st = p # ps" "node_at p (config st) = Some c" "statements c = ss"
    by (auto simp: stack_top_eq)
  have "node_at (p @ [length ss - 1]) (config ?st') = Some (NginxConfig [])"
    using c top(2) by (simp add: node_at_append update_back_def reset_child_def)
  moreover have "statements (config ?st') \<noteq> []"
    using assms by (auto simp: parse_inv_defs)
  ultimately show ?thesis using assms c by (auto simp: parse_inv_defs stack_top_eq)
qed

lemma parse_inv_closed:
  assumes "parse_inv st" and st: "config_stack st = p # ps"
    and "last_token_type st \<in> {TOKEN_TYPE_STATEMENT_END, TOKEN_TYPE_START_BLOCK, TOKEN_TYPE_END_BLOCK, TOKEN_TYPE_NORMAL}"
  shows "parse_inv (st\<lparr>block_start_count := block_start_count st - 1,
         block_end_count := block_end_count st + 1, config_stack := ps,
         last_token_type := TOKEN_TYPE_END_BLOCK\<rparr>)"
proof (cases ps)
  case Nil
  with assms show ?thesis by (auto simp: parse_inv_defs)
next
  case (Cons q qs)
  from assms(1) st Cons have "p = q @ [last p]"
    by (auto simp: parse_inv_defs)
  moreover from assms(1) st obtain c where "node_at p (config st) = Some c"
    by (auto simp: parse_inv_defs stack_top_eq)
  ultimately obtain d where "node_at q (config st) = Some d"
    by (metis bind_eq_Some_conv node_at_append)
  with assms Cons show ?thesis by (auto simp: parse_inv_defs stack_top_eq)
qed

lemma parse_inv_step:
  assumes "parse_inv st" and "parse_step tt t st = Inr (Next st')"
  shows "parse_inv st'"
proof (cases tt)
  case TOKEN_TYPE_NORMAL
  with assms(2) have "normal_token t st = Inr (Next st')" by (simp add: parse_step_simps)
  then show ?thesis
    by (cases rule: normal_token_cases [consumes 1])
       (use assms(1) in \<open>auto intro: parse_inv_first parse_inv_more\<close>)
next
  case TOKEN_TYPE_START_BLOCK
  with assms(2) have "start_block st = Inr (Next st')" by (simp add: parse_step_simps)
  then show ?thesis
  proof (cases rule: start_block_cases [consumes 1])
    case (opened p ss)
    then show ?thesis using parse_inv_opened [OF assms(1), of p ss] by simp
  qed simp
next
  case TOKEN_TYPE_END_BLOCK
  with assms(2) have "end_block st = Inr (Next st')" by (simp add: parse_step_simps)
  then show ?thesis
  proof (cases rule: end_block_cases [consumes 1])
    case (closed p ps)
    then show ?thesis using parse_inv_closed [OF assms(1), of p ps] by simp
  qed simp
next
  case TOKEN_TYPE_EOF
  with assms(2) show ?thesis by (simp add: parse_step_EOF)
next
  case TOKEN_TYPE_STATEMENT_END
  with assms(2) have "last_token_type st = TOKEN_TYPE_NORMAL"
    "st' = st\<lparr>last_token_type := TOKEN_TYPE_STATEMENT_END\<rparr>"
    by (simp_all add: parse_step_simps split: if_splits)
  with assms(1) show ?thesis by (auto simp: parse_inv_defs stack_top_eq)
qed (use assms in \<open>simp_all add: parse_step_simps\<close>)

lemma parse_reaches_inv: "parse_reaches st \<Longrightarrow> parse_inv st"
  by (induction rule: parse_reaches.induct) (auto intro: parse_inv_init parse_inv_step)

lemma Parse_loop_accepts:
  "Parse_loop s st = Inr (True, c) \<Longrightarrow> parse_reaches st \<Longrightarrow>
   \<exists>st'. parse_reaches st' \<and> config st' = c \<and> end_of_file st' = Inr (Return True st')"
proof (induction s st rule: Parse_loop.induct)
  case (1 s st)
  obtain tt t r where lex: "ParseToken s = (tt, t, r)" by (cases "ParseToken s") auto
  obtain nx where nx: "parse_step tt t st = Inr nx"
    using "1.prems"(1) lex by (subst (asm) Parse_loop.simps) (auto split: sum.splits)
  show ?case
  proof (cases nx)
    case (Next st')
    with lex nx "1.prems"(1) have "Parse_loop r st' = Inr (True, c)"
      by (subst (asm) Parse_loop.simps) simp
    moreover have "parse_reaches st'"
      by (rule parse_reaches.step [OF "1.prems"(2)]) (use nx Next in simp)
    ultimately show ?thesis using "1.IH" lex nx Next by simp
  next
    case (Return b st')
    with lex nx "1.prems"(1) have "b = True" "c = config st'"
      by (subst (asm) Parse_loop.simps, simp)+
    with nx Return have "st' = st" "end_of_file st = Inr (Return True st)"
      by (auto simp: parse_step_def normal_token_def start_block_def end_block_def end_of_file_def
          Let_def res_simps split: if_splits list.splits)
    with "1.prems"(2) \<open>c = config st'\<close> show ?thesis by auto
  qed
qed

lemma Parse_accepts_nonempty:
  assumes "Parse s c0 = Inr (True, c)"
  shows "statements c \<noteq> []"
proof -
  from assms obtain st where st: "parse_reaches st" "config st = c" "end_of_file st = Inr (Return True st)"
    using Parse_loop_accepts [OF _ parse_reaches.start, of s c0 c] by (auto simp: Parse_def)
  then have "last_token_type st \<noteq> TOKEN_TYPE_START" by (auto simp: end_of_file_def split: if_splits)
  with parse_reaches_inv [OF st(1)] st(2) show ?thesis by (simp add: parse_inv_defs)
qed

text \<open>When a reachable step is undefined.\<close>

lemma stack_top_undefined:
  assumes "parse_inv st"
  shows "stack_top st = Inl e \<longleftrightarrow> e = Undefined_Behaviour \<and> config_stack st = []"
  using assms by (cases "config_stack st") (auto simp: parse_inv_defs stack_top_def split: option.splits)





subsection \<open>Properties\<close>

text \<open>
  C35: a word (a NORMAL token) is what the tokenizer returns exactly when the input is blanks,
  then a plain or quoted word, then a character that ends it; that character stays unread.
\<close>

theorem ParseToken_word_iff:
  "ParseToken s = (TOKEN_TYPE_NORMAL, t, r) \<longleftrightarrow>
   (\<exists>ws d r'. set ws \<subseteq> set blank_chars \<and> s = ws @ t @ r \<and> r = d # r' \<and> wf_token t \<and> ends_token t d)"
proof
  assume "ParseToken s = (TOKEN_TYPE_NORMAL, t, r)"
  then show "\<exists>ws d r'. set ws \<subseteq> set blank_chars \<and> s = ws @ t @ r \<and> r = d # r' \<and> wf_token t \<and> ends_token t d"
    by (rule ParseToken_NORMAL)
next
  assume "\<exists>ws d r'. set ws \<subseteq> set blank_chars \<and> s = ws @ t @ r \<and> r = d # r' \<and> wf_token t \<and> ends_token t d"
  then obtain ws d r' where "set ws \<subseteq> set blank_chars" "s = ws @ t @ r" "r = d # r'" "wf_token t" "ends_token t d"
    by blast
  then show "ParseToken s = (TOKEN_TYPE_NORMAL, t, r)"
    by (simp add: ParseToken_skip_blanks blank_chars_def ParseToken_word)
qed

text \<open>
  C9: printing a well-formed, non-empty configuration with \<open>ToString\<close>, at any indentation,
  and parsing the text gives the same configuration back.
\<close>

theorem Parse_ToString_roundtrip:
  assumes "wf_config c" and "statements c \<noteq> []"
  shows "Parse (config_ToString depth c) (NginxConfig []) = Inr (True, c)"
  by (rule Parse_printed) (use assms in simp_all)

definition sample_block :: NginxConfig where
  "sample_block = NginxConfig
     [NginxConfigStatement [''port'', ''80''] None,
      NginxConfigStatement [''location'', ''/static'', ''StaticHandler'']
        (Some (NginxConfig [NginxConfigStatement [''root'', ''static/index.html''] None])),
      NginxConfigStatement [''location'', ''/echo'', ''EchoHandler''] (Some (NginxConfig []))]"

lemma wf_sample_block: "wf_config sample_block" "statements sample_block \<noteq> []"
  by code_simp+

theorem Parse_ToString_roundtrip_witness:
  "wf_config sample_block \<and> Parse (config_ToString 1 sample_block) (NginxConfig []) = Inr (True, sample_block)"
  using Parse_ToString_roundtrip [OF wf_sample_block] wf_sample_block by blast

text \<open>
  C32: whatever file is accepted, the configuration built is well formed and has a statement,
  and its printed form is a normal form: parsing that text gives the same configuration.
\<close>

theorem Parse_normal_form:
  assumes "Parse s (NginxConfig []) = Inr (True, c)"
  shows "wf_config c \<and> statements c \<noteq> [] \<and>
    Parse (config_ToString depth c) (NginxConfig []) = Inr (True, c)"
proof -
  have "wf_config c"
    using Parse_loop_wf [of s "init_parse (NginxConfig [])" True c] assms
    by (simp add: Parse_def init_parse_def wf_config_def)
  with Parse_accepts_nonempty [OF assms] show ?thesis by (simp add: Parse_printed)
qed

text \<open>A comment, a quoted word with a blank, and a statement closed by its block's brace.\<close>

theorem Parse_normal_form_witness:
  "wf_config (NginxConfig [NginxConfigStatement [''a'', [SQUOTE, SP, SQUOTE]]
     (Some (NginxConfig [NginxConfigStatement [''b''] None]))])"
proof -
  have "Parse (''# x'' @ [LF] @ ''a '' @ [SQUOTE, SP, SQUOTE] @ ''{b}'') (NginxConfig []) =
      Inr (True, NginxConfig [NginxConfigStatement [''a'', [SQUOTE, SP, SQUOTE]]
        (Some (NginxConfig [NginxConfigStatement [''b''] None]))])"
    by code_simp
  from Parse_normal_form [OF this] show ?thesis by blast
qed






text \<open>
  A plain word that the file ends with, with no separator after it, is dropped without an
  error: the file is accepted as if the word were not there.
\<close>

lemma Parse_drops_trailing_word:
  assumes "wf_config c" and "statements c \<noteq> []" and "plain_token w"
  shows "Parse (config_ToString depth c @ w) (NginxConfig []) = Inr (True, c)"
proof -
  let ?st = "init_parse (NginxConfig [])"
  have "Parse_loop (config_ToString depth c @ w) ?st = Parse_loop w (read_block c [] ?st)"
    using reads_all(1) [of c] assms(1) by (simp add: reads_config_def init_parse_def)
  also have "\<dots> = (case end_of_file (read_block c [] ?st) of Inr (Return b st') \<Rightarrow> Inr (b, config st')
      | _ \<Rightarrow> Parse_loop w (read_block c [] ?st))"
    using ParseToken_plain_EOF [OF assms(3)]
    by (subst Parse_loop.simps) (auto simp: parse_step_simps end_of_file_def)
  finally show ?thesis
    using assms(2) by (simp add: Parse_def read_block_def init_parse_def end_of_file_def ended_by_def)
qed

end
