(* ===== verification/Config_Query.thy ===== *)
theory Config_Query
  imports Config_Parser "HOL-Library.AList"
begin

section \<open>What the server reads from a configuration\<close>

text \<open>
  The \<open>get_\<dots>\<close> methods of \<open>NginxConfig\<close> in src/config_parser.cc.  \<open>tokens_[i]\<close> past the end and
  the block of a statement that has none are undefined behaviour.  An \<open>unordered_map\<close> is an
  association list with distinct keys; its order stands for the unspecified iteration order.
\<close>

type_synonym string_map = "(string \<times> string) list"

fun get_port_num :: "NginxConfig \<Rightarrow> int result"
  and port_loop :: "NginxConfigStatement list \<Rightarrow> int result" where
  "get_port_num (NginxConfig ss) = port_loop ss"
| "port_loop [] = Inr (- 1)"
| "port_loop (NginxConfigStatement ts None # ss) =
     bind_res (vec_at ts 0) (\<lambda>t0.
       if t0 = ''port'' then
         bind_res (vec_at ts 1) (\<lambda>t1.
         bind_res (atoi t1) (\<lambda>port_number.
           if port_number \<ge> 0 \<and> port_number \<le> 65535 then Inr port_number else Inr (- 1)))
       else port_loop ss)"
| "port_loop (NginxConfigStatement ts (Some child) # ss) =
     bind_res (get_port_num child) (\<lambda>port_num.
       if port_num \<noteq> - 1 then Inr port_num else port_loop ss)"

text \<open>\<open>tokens_[0] == "location" && tokens_[2] == handler\<close>\<close>

definition is_location :: "string \<Rightarrow> NginxConfigStatement \<Rightarrow> bool result" where
  "is_location handler s =
     bind_res (vec_at (tokens s) 0) (\<lambda>t0.
       if t0 = ''location'' then bind_res (vec_at (tokens s) 2) (\<lambda>t2. Inr (t2 = handler))
       else Inr False)"

text \<open>The loop that returns the path of the first location with this handler, or the empty string.\<close>

fun first_path :: "string \<Rightarrow> NginxConfigStatement list \<Rightarrow> string result" where
  "first_path handler [] = Inr []"
| "first_path handler (s # ss) =
     bind_res (is_location handler s) (\<lambda>b.
       if b then vec_at (tokens s) 1 else first_path handler ss)"

definition get_static_serving_path :: "NginxConfig \<Rightarrow> string result" where
  "get_static_serving_path c = first_path ''StaticHandler'' (statements c)"

definition get_echo_path :: "NginxConfig \<Rightarrow> string result" where
  "get_echo_path c = first_path ''EchoHandler'' (statements c)"

definition get_health_path :: "NginxConfig \<Rightarrow> string result" where
  "get_health_path c = first_path ''HealthHandler'' (statements c)"

definition get_sleep_path :: "NginxConfig \<Rightarrow> string result" where
  "get_sleep_path c = first_path ''SleepHandler'' (statements c)"

definition get_markdown_path :: "NginxConfig \<Rightarrow> string result" where
  "get_markdown_path c = first_path ''MarkdownHandler'' (statements c)"

text \<open>\<open>get_crud_path\<close> does not return at the first match: the last one wins.\<close>

fun crud_path_loop :: "NginxConfigStatement list \<Rightarrow> string \<Rightarrow> string result" where
  "crud_path_loop [] path_str = Inr path_str"
| "crud_path_loop (s # ss) path_str =
     bind_res (is_location ''CrudHandler'' s) (\<lambda>b.
       if b then bind_res (vec_at (tokens s) 1) (\<lambda>t1. crud_path_loop ss t1)
       else crud_path_loop ss path_str)"

definition get_crud_path :: "NginxConfig \<Rightarrow> string result" where
  "get_crud_path c = crud_path_loop (statements c) []"

text \<open>\<open>statement->child_block_->statements_\<close>\<close>

definition block_statements :: "NginxConfigStatement \<Rightarrow> NginxConfigStatement list result" where
  "block_statements s =
     (case child_block s of None \<Rightarrow> Inl Undefined_Behaviour | Some c \<Rightarrow> Inr (statements c))"

definition built_uri :: "string \<Rightarrow> string \<Rightarrow> string" where
  "built_uri location result_file_path =
     (case find_last_of SLASH result_file_path of
        Some extension_start \<Rightarrow> location @ drop extension_start result_file_path
      | None \<Rightarrow> location @ ''/'' @ result_file_path)"

text \<open>The loop over \<open>i\<close>: the argument is the suffix of the tokens from \<open>i\<close> on.\<close>

fun root_loop :: "string \<Rightarrow> string list \<Rightarrow> string_map \<Rightarrow> string_map result" where
  "root_loop location [] paths_map = Inr paths_map"
| "root_loop location (t # ts) paths_map =
     (if t = ''root'' then
        bind_res (vec_at ts 0) (\<lambda>result_file_path.
          root_loop location ts
            (AList.update (built_uri location result_file_path) result_file_path paths_map))
      else root_loop location ts paths_map)"

fun static_block_loop :: "string \<Rightarrow> NginxConfigStatement list \<Rightarrow> string_map \<Rightarrow> string_map result" where
  "static_block_loop location [] paths_map = Inr paths_map"
| "static_block_loop location (s # ss) paths_map =
     bind_res (root_loop location (tokens s) paths_map) (static_block_loop location ss)"

fun static_file_loop :: "NginxConfigStatement list \<Rightarrow> string_map result" where
  "static_file_loop [] = Inr []"
| "static_file_loop (s # ss) =
     bind_res (is_location ''StaticHandler'' s) (\<lambda>b.
       if b then
         bind_res (block_statements s) (\<lambda>block.
         bind_res (vec_at (tokens s) 1) (\<lambda>location. static_block_loop location block []))
       else static_file_loop ss)"

definition get_static_file_path :: "NginxConfig \<Rightarrow> string_map result" where
  "get_static_file_path c = static_file_loop (statements c)"

text \<open>\<open>if (!tokens_[0].empty()) arg_map[tokens_[0]] = tokens_[1]\<close> for each statement of a block.\<close>

fun args_block_loop :: "NginxConfigStatement list \<Rightarrow> string_map \<Rightarrow> string_map result" where
  "args_block_loop [] arg_map = Inr arg_map"
| "args_block_loop (s # ss) arg_map =
     bind_res (vec_at (tokens s) 0) (\<lambda>t0.
       if t0 \<noteq> [] then
         bind_res (vec_at (tokens s) 1) (\<lambda>t1. args_block_loop ss (AList.update t0 t1 arg_map))
       else args_block_loop ss arg_map)"

fun args_loop :: "string \<Rightarrow> NginxConfigStatement list \<Rightarrow> string_map \<Rightarrow> string_map result" where
  "args_loop handler [] arg_map = Inr arg_map"
| "args_loop handler (s # ss) arg_map =
     bind_res (is_location handler s) (\<lambda>b.
       if b then
         bind_res (block_statements s) (\<lambda>block.
         bind_res (args_block_loop block arg_map) (args_loop handler ss))
       else args_loop handler ss arg_map)"

definition get_crud_args :: "NginxConfig \<Rightarrow> string_map result" where
  "get_crud_args c = args_loop ''CrudHandler'' (statements c) []"

definition get_markdown_args :: "NginxConfig \<Rightarrow> string_map result" where
  "get_markdown_args c = args_loop ''MarkdownHandler'' (statements c) []"

subsection \<open>Configurations whose reads are defined\<close>

text \<open>Every top-level \<open>location\<close> names a path and a handler.\<close>

definition locations_complete :: "NginxConfig \<Rightarrow> bool" where
  "locations_complete c \<longleftrightarrow> list_all (\<lambda>s. tokens s \<noteq> [] \<and>
     (hd (tokens s) = ''location'' \<longrightarrow> 3 \<le> length (tokens s))) (statements c)"

definition location_for :: "string \<Rightarrow> NginxConfigStatement \<Rightarrow> bool" where
  "location_for handler s \<longleftrightarrow> hd (tokens s) = ''location'' \<and> tokens s ! 2 = handler"

lemma is_location_complete:
  assumes "tokens s \<noteq> []" and "hd (tokens s) = ''location'' \<longrightarrow> 3 \<le> length (tokens s)"
  shows "is_location handler s = Inr (location_for handler s)"
  using assms by (cases "tokens s") (auto simp: is_location_def location_for_def vec_at_def)

lemma location_for_path:
  assumes "hd (tokens s) = ''location'' \<longrightarrow> 3 \<le> length (tokens s)" and "location_for handler s"
  shows "vec_at (tokens s) (Suc 0) = Inr (tokens s ! Suc 0)"
  using assms by (simp add: location_for_def vec_at_def)

lemma first_path_find:
  assumes "list_all (\<lambda>s. tokens s \<noteq> [] \<and> (hd (tokens s) = ''location'' \<longrightarrow> 3 \<le> length (tokens s))) ss"
  shows "first_path handler ss =
    Inr (case find (location_for handler) ss of None \<Rightarrow> [] | Some s \<Rightarrow> tokens s ! 1)"
  using assms
  by (induction ss) (auto simp: is_location_complete location_for_path)

lemma crud_path_find:
  assumes "list_all (\<lambda>s. tokens s \<noteq> [] \<and> (hd (tokens s) = ''location'' \<longrightarrow> 3 \<le> length (tokens s))) ss"
  shows "crud_path_loop ss p =
    Inr (case find (location_for ''CrudHandler'') (rev ss) of None \<Rightarrow> p | Some s \<Rightarrow> tokens s ! 1)"
  using assms
proof (induction ss arbitrary: p)
  case (Cons s ss)
  have "find P (xs @ [x]) = (case find P xs of None \<Rightarrow> if P x then Some x else None | r \<Rightarrow> r)"
    for P xs and x :: NginxConfigStatement by (induction xs) auto
  with Cons show ?case by (auto simp: is_location_complete location_for_path split: option.splits)
qed simp

subsection \<open>Maps built by the loops\<close>

definition basename :: "string \<Rightarrow> string" where
  "basename p = rev (takeWhile (\<lambda>c. c \<noteq> SLASH) (rev p))"

lemma built_uri_basename: "built_uri location p = location @ SLASH # basename p"
proof (cases "find_last_of SLASH p")
  case None
  then have "takeWhile (\<lambda>c. c \<noteq> SLASH) (rev p) = rev p"
    by (subst takeWhile_eq_all_conv) (auto simp: find_last_of_None_iff)
  then have "basename p = p" by (simp only: basename_def rev_rev_ident)
  with None show ?thesis by (simp add: built_uri_def)
next
  case (Some i)
  then obtain a b where p: "p = a @ SLASH # b" "length a = i" "SLASH \<notin> set b"
    using find_last_of_SomeD by blast
  from this have "takeWhile (\<lambda>c. c \<noteq> SLASH) (rev p) = rev b"
    by (auto simp: takeWhile_tail)
  then have "basename p = b" by (simp only: basename_def rev_rev_ident)
  with Some p show ?thesis by (simp add: built_uri_def)
qed

lemma map_of_update_fold:
  "map_of (fold (\<lambda>(k, v). AList.update k v) kvs m) = map_of (rev kvs @ m)"
  by (induction kvs arbitrary: m) (auto simp: update_conv' map_add_def fun_eq_iff split: option.splits)

text \<open>The pairs a block adds: \<open>name value\<close> for each statement whose name is not empty.\<close>

definition block_args :: "NginxConfig \<Rightarrow> (string \<times> string) list" where
  "block_args c = map (\<lambda>s. (tokens s ! 0, tokens s ! 1)) (filter (\<lambda>s. tokens s ! 0 \<noteq> []) (statements c))"

definition args_complete :: "string \<Rightarrow> NginxConfig \<Rightarrow> bool" where
  "args_complete handler c \<longleftrightarrow> list_all (\<lambda>s. location_for handler s \<longrightarrow>
     (case child_block s of None \<Rightarrow> False
      | Some b \<Rightarrow> list_all (\<lambda>a. tokens a \<noteq> [] \<and> (tokens a ! 0 \<noteq> [] \<longrightarrow> 2 \<le> length (tokens a))) (statements b)))
     (statements c)"

lemma args_block_loop_fold:
  "list_all (\<lambda>a. tokens a \<noteq> [] \<and> (tokens a ! 0 \<noteq> [] \<longrightarrow> 2 \<le> length (tokens a))) ss \<Longrightarrow>
   args_block_loop ss m = Inr (fold (\<lambda>(k, v). AList.update k v) (block_args (NginxConfig ss)) m)"
  by (induction ss arbitrary: m) (auto simp: vec_at_def block_args_def)

lemma args_loop_fold:
  assumes "locations_complete (NginxConfig ss)" and "args_complete handler (NginxConfig ss)"
  shows "args_loop handler ss m = Inr (fold (\<lambda>(k, v). AList.update k v)
    (concat (map (\<lambda>s. block_args (the (child_block s))) (filter (location_for handler) ss))) m)"
  using assms
proof (induction ss arbitrary: m)
  case (Cons s ss)
  have step: "args_loop handler (s # ss) m =
      (if location_for handler s then bind_res (block_statements s)
         (\<lambda>block. bind_res (args_block_loop block m) (args_loop handler ss))
       else args_loop handler ss m)"
    using Cons.prems(1) by (simp add: locations_complete_def is_location_complete)
  show ?case
  proof (cases "location_for handler s")
    case True
    then obtain b where b: "child_block s = Some b"
      "list_all (\<lambda>a. tokens a \<noteq> [] \<and> (tokens a ! 0 \<noteq> [] \<longrightarrow> 2 \<le> length (tokens a))) (statements b)"
      using Cons.prems(2) by (auto simp: args_complete_def split: option.splits)
    with args_block_loop_fold [OF b(2)] Cons True step show ?thesis
      by (simp add: block_statements_def locations_complete_def args_complete_def)
  next
    case False
    with Cons step show ?thesis by (simp add: locations_complete_def args_complete_def)
  qed
qed simp

lemma static_block_loop_roots:
  "''root'' \<notin> set ps \<Longrightarrow>
   static_block_loop location (map (\<lambda>p. NginxConfigStatement [''root'', p] None) ps) m =
   Inr (fold (\<lambda>(k, v). AList.update k v) (map (\<lambda>p. (built_uri location p, p)) ps) m)"
proof (induction ps arbitrary: m)
  case (Cons p ps)
  then show ?case by auto
qed simp

lemma static_file_loop_find:
  assumes "locations_complete (NginxConfig ss)" and "find (location_for ''StaticHandler'') ss = Some s"
  shows "static_file_loop ss =
    bind_res (block_statements s) (\<lambda>block. static_block_loop (tokens s ! 1) block [])"
  using assms
proof (induction ss)
  case (Cons a ss)
  show ?case
  proof (cases "location_for ''StaticHandler'' a")
    case True
    with Cons.prems have "s = a" by simp
    with True Cons.prems(1) show ?thesis
      by (simp add: locations_complete_def is_location_complete location_for_path)
  next
    case False
    with Cons show ?thesis by (simp add: locations_complete_def is_location_complete)
  qed
qed simp

subsection \<open>Properties\<close>

definition path_of :: "NginxConfigStatement option \<Rightarrow> string" where
  "path_of found = (case found of None \<Rightarrow> [] | Some s \<Rightarrow> tokens s ! 1)"

text \<open>
  C37: when every top-level location names a path and a handler, no path getter is undefined;
  all but one return the path of the first location with their handler, \<open>get_crud_path\<close> that
  of the last one, and the empty string when there is none.
\<close>

theorem path_getters_find:
  assumes "locations_complete c"
  shows "get_echo_path c = Inr (path_of (find (location_for ''EchoHandler'') (statements c))) \<and>
    get_static_serving_path c = Inr (path_of (find (location_for ''StaticHandler'') (statements c))) \<and>
    get_health_path c = Inr (path_of (find (location_for ''HealthHandler'') (statements c))) \<and>
    get_sleep_path c = Inr (path_of (find (location_for ''SleepHandler'') (statements c))) \<and>
    get_markdown_path c = Inr (path_of (find (location_for ''MarkdownHandler'') (statements c))) \<and>
    get_crud_path c = Inr (path_of (find (location_for ''CrudHandler'') (rev (statements c))))"
  using assms
  by (simp add: locations_complete_def get_echo_path_def get_static_serving_path_def
      get_health_path_def get_sleep_path_def get_markdown_path_def get_crud_path_def
      first_path_find crud_path_find path_of_def)

definition two_crud_config :: NginxConfig where
  "two_crud_config = NginxConfig
     [NginxConfigStatement [''port'', ''80''] None,
      NginxConfigStatement [''location'', ''/echo'', ''EchoHandler''] (Some (NginxConfig [])),
      NginxConfigStatement [''location'', ''/api'', ''CrudHandler'']
        (Some (NginxConfig [NginxConfigStatement [''data_path'', ''/a''] None])),
      NginxConfigStatement [''location'', ''/v2'', ''CrudHandler'']
        (Some (NginxConfig [NginxConfigStatement [''data_path'', ''/b''] None])),
      NginxConfigStatement [''location'', ''/static'', ''StaticHandler'']
        (Some (NginxConfig [NginxConfigStatement [''root'', ''static/index.html''] None,
           NginxConfigStatement [''root'', ''top.html''] None]))]"

lemma two_crud_complete: "locations_complete two_crud_config" "args_complete ''CrudHandler'' two_crud_config"
  by code_simp+

theorem path_getters_find_witness:
  "locations_complete two_crud_config \<and> get_crud_path two_crud_config = Inr ''/v2'' \<and>
   get_echo_path two_crud_config = Inr ''/echo''"
proof -
  have "path_of (find (location_for ''CrudHandler'') (rev (statements two_crud_config))) = ''/v2''"
    "path_of (find (location_for ''EchoHandler'') (statements two_crud_config)) = ''/echo''"
    by code_simp+
  with path_getters_find [OF two_crud_complete(1)] two_crud_complete(1) show ?thesis by simp
qed

lemma port_num_range:
  "get_port_num c = Inr n \<Longrightarrow> n = - 1 \<or> 0 \<le> n \<and> n \<le> 65535"
proof -
  have "(get_port_num c = Inr n \<longrightarrow> n = - 1 \<or> 0 \<le> n \<and> n \<le> 65535)"
    "(port_loop ss = Inr n \<longrightarrow> n = - 1 \<or> 0 \<le> n \<and> n \<le> 65535)" for ss
    by (induction c and ss rule: get_port_num_port_loop.induct) (auto simp: res_simps split: if_splits)
  then show "get_port_num c = Inr n \<Longrightarrow> n = - 1 \<or> 0 \<le> n \<and> n \<le> 65535" by blast
qed

text \<open>
  The arguments of the CRUD locations are merged over all of them in the order of the
  file, so a later \<open>name value\<close> wins over an earlier one.
\<close>

lemma get_args_merge:
  assumes "locations_complete c" and "args_complete ''CrudHandler'' c"
  shows "\<exists>m. get_crud_args c = Inr m \<and>
    map_of m = map_of (rev (concat (map (\<lambda>s. block_args (the (child_block s)))
      (filter (location_for ''CrudHandler'') (statements c)))))"
proof -
  obtain ss where c: "c = NginxConfig ss" by (cases c)
  with args_loop_fold [of ss "''CrudHandler''" "[]"] assms show ?thesis
    by (simp add: get_crud_args_def map_of_update_fold)
qed

text \<open>
  each \<open>root\<close> of the first static location is served under the location followed by a
  slash and the file's base name, and under no other address.
\<close>

lemma get_static_file_path_uris:
  assumes "locations_complete c" and "find (location_for ''StaticHandler'') (statements c) = Some s"
    and "child_block s = Some (NginxConfig (map (\<lambda>p. NginxConfigStatement [''root'', p] None) ps))"
    and "''root'' \<notin> set ps"
  shows "\<exists>m. get_static_file_path c = Inr m \<and>
    map_of m = map_of (rev (map (\<lambda>p. ((tokens s ! 1) @ SLASH # basename p, p)) ps))"
proof -
  obtain ss where c: "c = NginxConfig ss" by (cases c)
  with static_file_loop_find [of ss s] assms show ?thesis
    by (simp add: get_static_file_path_def block_statements_def static_block_loop_roots
        map_of_update_fold built_uri_basename)
qed

end
