(* ===== verification/Request_Parser.thy ===== *)
theory Request_Parser
  imports Prelude
begin

section \<open>The HTTP request parser\<close>

text \<open>
  include/header.h, include/request.h, include/request_parser.h and src/request_parser.cc: an
  incremental parser that consumes one byte at a time and writes into a \<open>request\<close>.  Its
  states are the values of \<open>enum state\<close>, with the prefix \<open>S_\<close>.  \<open>headers.back()\<close> of an empty
  vector and a version number that is no \<open>int\<close> are undefined behaviour.
\<close>

record header =
  hdr_name :: string
  hdr_value :: string

record request =
  meth :: string
  uri :: string
  http_version_major :: int
  http_version_minor :: int
  headers :: "header list"

datatype parser_state =
    S_method_start | S_method | S_uri
  | S_http_version_h | S_http_version_t_1 | S_http_version_t_2 | S_http_version_p
  | S_http_version_slash | S_http_version_major_start | S_http_version_major
  | S_http_version_minor_start | S_http_version_minor
  | S_expecting_newline_1 | S_header_line_start | S_header_lws | S_header_name
  | S_space_before_header_value | S_header_value | S_expecting_newline_2 | S_expecting_newline_3

datatype result_type = good | bad | indeterminate

definition is_char :: "int \<Rightarrow> bool" where
  "is_char c \<longleftrightarrow> c \<ge> 0 \<and> c \<le> 127"

definition is_ctl :: "int \<Rightarrow> bool" where
  "is_ctl c \<longleftrightarrow> (c \<ge> 0 \<and> c \<le> 31) \<or> c = 127"

definition tspecials :: string where
  "tspecials =
     [CHR ''('', CHR '')'', CHR ''<'', CHR ''>'', CHR ''@'',
      CHR '','', CHR '';'', CHR '':'', BACKSLASH, DQUOTE,
      CHR ''/'', CHR ''['', CHR '']'', CHR ''?'', CHR ''='',
      CHR ''{'', CHR ''}'', SP, TAB]"

definition is_tspecial :: "int \<Rightarrow> bool" where
  "is_tspecial c \<longleftrightarrow> c \<in> set (map char_int tspecials)"

definition is_digit :: "int \<Rightarrow> bool" where
  "is_digit c \<longleftrightarrow> c \<ge> char_int (CHR ''0'') \<and> c \<le> char_int (CHR ''9'')"

text \<open>\<open>!is_char(input) || is_ctl(input) || is_tspecial(input)\<close>\<close>

definition not_token :: "char \<Rightarrow> bool" where
  "not_token c \<longleftrightarrow> \<not> is_char (char_int c) \<or> is_ctl (char_int c) \<or> is_tspecial (char_int c)"

text \<open>\<open>version * 10 + input - '0'\<close> in \<open>int\<close>, from left to right.\<close>

definition version_digit :: "int \<Rightarrow> char \<Rightarrow> int result" where
  "version_digit v c =
     bind_res (chk_int (v * 10)) (\<lambda>a.
     bind_res (chk_int (a + char_int c)) (\<lambda>b. chk_int (b - char_int (CHR ''0''))))"

definition update_last_header :: "(header \<Rightarrow> header) \<Rightarrow> request \<Rightarrow> request result" where
  "update_last_header f req =
     bind_res (vec_back (headers req)) (\<lambda>h. Inr (req\<lparr>headers := butlast (headers req) @ [f h]\<rparr>))"

definition push_name :: "char \<Rightarrow> header \<Rightarrow> header" where
  "push_name c h = h\<lparr>hdr_name := hdr_name h @ [c]\<rparr>"

definition push_value :: "char \<Rightarrow> header \<Rightarrow> header" where
  "push_value c h = h\<lparr>hdr_value := hdr_value h @ [c]\<rparr>"

type_synonym consumed = "(parser_state \<times> request) \<times> result_type"

text \<open>\<open>if (input == expected) { state_ = next; return indeterminate; } else return bad;\<close>\<close>

definition expect :: "char \<Rightarrow> parser_state \<Rightarrow> parser_state \<Rightarrow> request \<Rightarrow> char \<Rightarrow> consumed result" where
  "expect expected nxt st req input =
     (if input = expected then Inr ((nxt, req), indeterminate) else Inr ((st, req), bad))"

text \<open>The cases of \<open>consume\<close> inside the header block.\<close>

definition consume_header_line_start :: "request \<Rightarrow> char \<Rightarrow> consumed result" where
  "consume_header_line_start req input =
     (if input = CR then Inr ((S_expecting_newline_3, req), indeterminate)
      else if headers req \<noteq> [] \<and> (input = SP \<or> input = TAB)
        then Inr ((S_header_lws, req), indeterminate)
      else if not_token input then Inr ((S_header_line_start, req), bad)
      else Inr ((S_header_name,
        req\<lparr>headers := headers req @ [\<lparr>hdr_name = [input], hdr_value = []\<rparr>]\<rparr>), indeterminate))"

definition consume_header_lws :: "request \<Rightarrow> char \<Rightarrow> consumed result" where
  "consume_header_lws req input =
     (if input = CR then Inr ((S_expecting_newline_2, req), indeterminate)
      else if input = SP \<or> input = TAB then Inr ((S_header_lws, req), indeterminate)
      else if is_ctl (char_int input) then Inr ((S_header_lws, req), bad)
      else bind_res (update_last_header (push_value input) req) (\<lambda>req'.
        Inr ((S_header_value, req'), indeterminate)))"

definition consume_header_name :: "request \<Rightarrow> char \<Rightarrow> consumed result" where
  "consume_header_name req input =
     (if input = CHR '':'' then Inr ((S_space_before_header_value, req), indeterminate)
      else if not_token input then Inr ((S_header_name, req), bad)
      else bind_res (update_last_header (push_name input) req) (\<lambda>req'.
        Inr ((S_header_name, req'), indeterminate)))"

definition consume_header_value :: "request \<Rightarrow> char \<Rightarrow> consumed result" where
  "consume_header_value req input =
     (if input = CR then Inr ((S_expecting_newline_2, req), indeterminate)
      else if is_ctl (char_int input) then Inr ((S_header_value, req), bad)
      else bind_res (update_last_header (push_value input) req) (\<lambda>req'.
        Inr ((S_header_value, req'), indeterminate)))"

definition consume_expecting_newline_1 :: "request \<Rightarrow> char \<Rightarrow> consumed result" where
  "consume_expecting_newline_1 req input = expect LF S_header_line_start S_expecting_newline_1 req input"

definition consume_space_before_header_value :: "request \<Rightarrow> char \<Rightarrow> consumed result" where
  "consume_space_before_header_value req input = expect SP S_header_value S_space_before_header_value req input"

definition consume_expecting_newline_2 :: "request \<Rightarrow> char \<Rightarrow> consumed result" where
  "consume_expecting_newline_2 req input = expect LF S_header_line_start S_expecting_newline_2 req input"

definition consume_expecting_newline_3 :: "request \<Rightarrow> char \<Rightarrow> consumed result" where
  "consume_expecting_newline_3 req input =
     (if input = LF then Inr ((S_expecting_newline_3, req), good)
      else Inr ((S_expecting_newline_3, req), bad))"

fun consume :: "parser_state \<times> request \<Rightarrow> char \<Rightarrow> consumed result" where
  "consume (S_method_start, req) input =
     (if not_token input then Inr ((S_method_start, req), bad)
      else Inr ((S_method, req\<lparr>meth := meth req @ [input]\<rparr>), indeterminate))"
| "consume (S_method, req) input =
     (if input = SP then Inr ((S_uri, req), indeterminate)
      else if not_token input then Inr ((S_method, req), bad)
      else Inr ((S_method, req\<lparr>meth := meth req @ [input]\<rparr>), indeterminate))"
| "consume (S_uri, req) input =
     (if input = SP then Inr ((S_http_version_h, req), indeterminate)
      else if is_ctl (char_int input) then Inr ((S_uri, req), bad)
      else Inr ((S_uri, req\<lparr>uri := uri req @ [input]\<rparr>), indeterminate))"
| "consume (S_http_version_h, req) input = expect (CHR ''H'') S_http_version_t_1 S_http_version_h req input"
| "consume (S_http_version_t_1, req) input = expect (CHR ''T'') S_http_version_t_2 S_http_version_t_1 req input"
| "consume (S_http_version_t_2, req) input = expect (CHR ''T'') S_http_version_p S_http_version_t_2 req input"
| "consume (S_http_version_p, req) input = expect (CHR ''P'') S_http_version_slash S_http_version_p req input"
| "consume (S_http_version_slash, req) input =
     (if input = CHR ''/'' then
        Inr ((S_http_version_major_start, req\<lparr>http_version_major := 0, http_version_minor := 0\<rparr>), indeterminate)
      else Inr ((S_http_version_slash, req), bad))"
| "consume (S_http_version_major_start, req) input =
     (if is_digit (char_int input) then
        bind_res (version_digit (http_version_major req) input) (\<lambda>v.
          Inr ((S_http_version_major, req\<lparr>http_version_major := v\<rparr>), indeterminate))
      else Inr ((S_http_version_major_start, req), bad))"
| "consume (S_http_version_major, req) input =
     (if input = CHR ''.'' then Inr ((S_http_version_minor_start, req), indeterminate)
      else if is_digit (char_int input) then
        bind_res (version_digit (http_version_major req) input) (\<lambda>v.
          Inr ((S_http_version_major, req\<lparr>http_version_major := v\<rparr>), indeterminate))
      else Inr ((S_http_version_major, req), bad))"
| "consume (S_http_version_minor_start, req) input =
     (if is_digit (char_int input) then
        bind_res (version_digit (http_version_minor req) input) (\<lambda>v.
          Inr ((S_http_version_minor, req\<lparr>http_version_minor := v\<rparr>), indeterminate))
      else Inr ((S_http_version_minor_start, req), bad))"
| "consume (S_http_version_minor, req) input =
     (if input = CR then Inr ((S_expecting_newline_1, req), indeterminate)
      else if is_digit (char_int input) then
        bind_res (version_digit (http_version_minor req) input) (\<lambda>v.
          Inr ((S_http_version_minor, req\<lparr>http_version_minor := v\<rparr>), indeterminate))
      else Inr ((S_http_version_minor, req), bad))"
| "consume (S_expecting_newline_1, req) input = consume_expecting_newline_1 req input"
| "consume (S_header_line_start, req) input = consume_header_line_start req input"
| "consume (S_header_lws, req) input = consume_header_lws req input"
| "consume (S_header_name, req) input = consume_header_name req input"
| "consume (S_space_before_header_value, req) input = consume_space_before_header_value req input"
| "consume (S_header_value, req) input = consume_header_value req input"
| "consume (S_expecting_newline_2, req) input = consume_expecting_newline_2 req input"
| "consume (S_expecting_newline_3, req) input = consume_expecting_newline_3 req input"

lemmas consume_header_defs [simp] =
  consume_header_line_start_def consume_header_lws_def consume_header_name_def consume_header_value_def
  consume_expecting_newline_1_def consume_space_before_header_value_def consume_expecting_newline_2_def
  consume_expecting_newline_3_def

text \<open>The template \<open>parse\<close>: the result, the parser and request afterwards, the bytes left.\<close>

fun parse :: "parser_state \<times> request \<Rightarrow> string \<Rightarrow> (result_type \<times> (parser_state \<times> request) \<times> string) result" where
  "parse s [] = Inr (indeterminate, s, [])"
| "parse s (input # rest) =
     bind_res (consume s input) (\<lambda>(s', result).
       if result = good \<or> result = bad then Inr (result, s', rest) else parse s' rest)"

definition reset :: "parser_state \<times> request \<Rightarrow> parser_state \<times> request" where
  "reset s = (S_method_start, snd s)"

subsection \<open>Consumers of a byte stream\<close>

text \<open>
  What \<open>parse\<close> promises of any \<open>consume\<close>: the loop over a step that may deliver a final
  verdict.  The lemmas hold of every such loop.
\<close>

locale byte_consumer =
  fixes step :: "'s \<Rightarrow> char \<Rightarrow> ('s \<times> 'v) result"
    and final :: "'v \<Rightarrow> bool"
    and more :: 'v
    and run :: "'s \<Rightarrow> string \<Rightarrow> ('v \<times> 's \<times> string) result"
  assumes run_Nil: "run s [] = Inr (more, s, [])"
    and run_Cons: "run s (c # cs) =
      bind_res (step s c) (\<lambda>(s', v). if final v then Inr (v, s', cs) else run s' cs)"
    and more_not_final: "\<not> final more"
begin

lemma run_append:
  "run s (xs @ ys) = bind_res (run s xs) (\<lambda>(v, s', rest).
     if final v then Inr (v, s', rest @ ys) else run s' ys)"
proof (induction xs arbitrary: s)
  case Nil
  then show ?case by (simp add: run_Nil more_not_final)
next
  case (Cons c xs)
  show ?case
  proof (cases "step s c")
    case (Inl e)
    then show ?thesis by (simp add: run_Cons)
  next
    case (Inr sv)
    then show ?thesis by (cases sv) (simp add: run_Cons Cons.IH)
  qed
qed

lemma run_verdict:
  assumes "run s cs = Inr (v, s', rest)"
  shows "if final v then \<exists>u c. cs = u @ c # rest else rest = [] \<and> v = more"
  using assms
proof (induction cs arbitrary: s)
  case (Cons c cs)
  then obtain s1 v1 where step: "step s c = Inr (s1, v1)" by (auto simp: run_Cons res_simps)
  show ?case
  proof (cases "final v1")
    case True
    with Cons.prems step have "v1 = v" "rest = cs" by (simp_all add: run_Cons)
    with True show ?thesis by (auto intro: exI [of _ "[]"])
  next
    case False
    with Cons.prems step have "run s1 cs = Inr (v, s', rest)" by (simp add: run_Cons)
    from Cons.IH [OF this] show ?thesis by (auto split: if_splits intro: exI [of _ "c # u" for u])
  qed
qed (use more_not_final in \<open>auto simp: run_Nil\<close>)

text \<open>An invariant of the steps that may mention the bytes consumed so far.\<close>

lemma run_invariant:
  assumes "run s cs = Inr (v, s', rest)" and "I s pre"
    and "\<And>s pre c s' v. I s pre \<Longrightarrow> step s c = Inr (s', v) \<Longrightarrow> \<not> final v \<Longrightarrow> I s' (pre @ [c])"
  shows "if final v then \<exists>u c s0. cs = u @ c # rest \<and> I s0 (pre @ u) \<and> step s0 c = Inr (s', v)
    else I s' (pre @ cs)"
  using assms(1,2)
proof (induction cs arbitrary: s pre)
  case Nil
  then show ?case using more_not_final by (auto simp: run_Nil)
next
  case (Cons c cs)
  then obtain s1 v1 where step: "step s c = Inr (s1, v1)" by (auto simp: run_Cons res_simps)
  show ?case
  proof (cases "final v1")
    case True
    with Cons.prems step have "v1 = v" "rest = cs" "s1 = s'" by (simp_all add: run_Cons)
    with True step Cons.prems(2) show ?thesis by (auto intro!: exI [of _ "[]"])
  next
    case False
    with Cons.prems step have "run s1 cs = Inr (v, s', rest)" by (simp add: run_Cons)
    from Cons.IH [OF this assms(3) [OF Cons.prems(2) step False]]
    show ?thesis by (auto split: if_splits)
  qed
qed

end

interpretation rp: byte_consumer consume "\<lambda>r. r = good \<or> r = bad" indeterminate parse
  by unfold_locales simp_all

subsection \<open>A printed request parses back\<close>

definition is_token_char :: "char \<Rightarrow> bool" where
  "is_token_char c \<longleftrightarrow> \<not> not_token c"

definition is_text_char :: "char \<Rightarrow> bool" where
  "is_text_char c \<longleftrightarrow> \<not> is_ctl (char_int c)"

text \<open>A request as RFC 7230 writes it, and the requests the grammar can carry.\<close>

definition print_header :: "header \<Rightarrow> string" where
  "print_header h = hdr_name h @ '': '' @ hdr_value h @ [CR, LF]"

definition print_request :: "request \<Rightarrow> string" where
  "print_request r = meth r @ [SP] @ uri r @ [SP] @ ''HTTP/'' @
     to_string (http_version_major r) @ ''.'' @ to_string (http_version_minor r) @ [CR, LF] @
     concat (map print_header (headers r)) @ [CR, LF]"

definition wf_header :: "header \<Rightarrow> bool" where
  "wf_header h \<longleftrightarrow> hdr_name h \<noteq> [] \<and> list_all is_token_char (hdr_name h) \<and> list_all is_text_char (hdr_value h)"

definition wf_request :: "request \<Rightarrow> bool" where
  "wf_request r \<longleftrightarrow> meth r \<noteq> [] \<and> list_all is_token_char (meth r) \<and>
     list_all (\<lambda>c. is_text_char c \<and> c \<noteq> SP) (uri r) \<and>
     0 \<le> http_version_major r \<and> http_version_major r \<le> INT_MAX - 48 \<and>
     0 \<le> http_version_minor r \<and> http_version_minor r \<le> INT_MAX - 48 \<and>
     list_all wf_header (headers r)"

lemma token_char_iff: "\<not> not_token c \<longleftrightarrow> is_token_char c"
  by (simp add: is_token_char_def)

lemma token_char_facts:
  "is_token_char c \<Longrightarrow> c \<noteq> SP" "is_token_char c \<Longrightarrow> c \<noteq> TAB" "is_token_char c \<Longrightarrow> c \<noteq> CR"
  "is_token_char c \<Longrightarrow> c \<noteq> CHR '':''" "is_token_char c \<Longrightarrow> is_text_char c"
  by (auto simp: is_token_char_def not_token_def is_tspecial_def tspecials_def char_int_def is_ctl_def
      is_text_char_def)

lemma text_char_facts:
  "is_text_char c \<Longrightarrow> c \<noteq> CR" "is_text_char c \<Longrightarrow> c \<noteq> LF" "is_text_char c \<Longrightarrow> c \<noteq> NUL"
  by (auto simp: is_text_char_def is_ctl_def char_int_def)

lemma parse_method:
  "list_all is_token_char xs \<Longrightarrow>
   parse (S_method, req) (xs @ r) = parse (S_method, req\<lparr>meth := meth req @ xs\<rparr>) r"
proof (induction xs arbitrary: req)
  case (Cons c xs)
  then have "c \<noteq> SP" "\<not> not_token c" by (auto dest: token_char_facts(1) simp: token_char_iff)
  with Cons show ?case by simp
qed simp

lemma parse_uri:
  "list_all (\<lambda>c. is_text_char c \<and> c \<noteq> SP) xs \<Longrightarrow>
   parse (S_uri, req) (xs @ r) = parse (S_uri, req\<lparr>uri := uri req @ xs\<rparr>) r"
proof (induction xs arbitrary: req)
  case (Cons c xs)
  then show ?case by (simp add: is_text_char_def)
qed simp

lemma parse_name:
  "list_all is_token_char xs \<Longrightarrow>
   parse (S_header_name, req\<lparr>headers := hs @ [\<lparr>hdr_name = n, hdr_value = v\<rparr>]\<rparr>) (xs @ r) =
   parse (S_header_name, req\<lparr>headers := hs @ [\<lparr>hdr_name = n @ xs, hdr_value = v\<rparr>]\<rparr>) r"
proof (induction xs arbitrary: n)
  case (Cons c xs)
  then have "c \<noteq> CHR '':''" "\<not> not_token c" by (auto dest: token_char_facts(4) simp: token_char_iff)
  with Cons show ?case by (simp add: update_last_header_def push_name_def)
qed simp

lemma parse_value:
  "list_all is_text_char xs \<Longrightarrow>
   parse (S_header_value, req\<lparr>headers := hs @ [\<lparr>hdr_name = n, hdr_value = v\<rparr>]\<rparr>) (xs @ r) =
   parse (S_header_value, req\<lparr>headers := hs @ [\<lparr>hdr_name = n, hdr_value = v @ xs\<rparr>]\<rparr>) r"
proof (induction xs arbitrary: v)
  case (Cons c xs)
  then have "c \<noteq> CR" by (auto dest: text_char_facts)
  with Cons show ?case by (simp add: update_last_header_def push_value_def is_text_char_def)
qed simp

lemma parse_header:
  assumes "wf_header h"
  shows "parse (S_header_line_start, req) (print_header h @ r) =
    parse (S_header_line_start, req\<lparr>headers := headers req @ [h]\<rparr>) r"
proof -
  obtain c cs where name: "hdr_name h = c # cs" and c: "is_token_char c" and
    cs: "list_all is_token_char cs" and v: "list_all is_text_char (hdr_value h)"
    using assms by (cases "hdr_name h") (auto simp: wf_header_def)
  have "\<not> not_token c" "c \<noteq> SP" "c \<noteq> TAB" "c \<noteq> CR"
    using c token_char_facts [of c] by (simp_all add: token_char_iff)
  then have "parse (S_header_line_start, req) (print_header h @ r) =
      parse (S_header_name, req\<lparr>headers := headers req @ [\<lparr>hdr_name = [c], hdr_value = []\<rparr>]\<rparr>)
        (cs @ '': '' @ hdr_value h @ [CR, LF] @ r)"
    by (simp add: print_header_def name)
  also have "\<dots> = parse (S_header_value, req\<lparr>headers := headers req @ [\<lparr>hdr_name = c # cs, hdr_value = []\<rparr>]\<rparr>)
        (hdr_value h @ [CR, LF] @ r)"
    by (subst parse_name [OF cs]) (simp add: expect_def)
  also have "\<dots> = parse (S_header_line_start, req\<lparr>headers := headers req @ [h]\<rparr>) r"
    using name by (subst parse_value [OF v]) (cases h, simp add: expect_def)
  finally show ?thesis .
qed

lemma parse_headers:
  "list_all wf_header hs \<Longrightarrow>
   parse (S_header_line_start, req) (concat (map print_header hs) @ r) =
   parse (S_header_line_start, req\<lparr>headers := headers req @ hs\<rparr>) r"
  by (induction hs arbitrary: req) (simp_all add: parse_header)

lemma version_digit_ok:
  assumes "d < 10" and "0 \<le> v" and "v * 10 + int d \<le> INT_MAX - 48"
  shows "version_digit v (digit_char d) = Inr (v * 10 + int d)"
proof -
  have "char_int (digit_char d) = 48 + int d" using assms(1) by (simp add: char_int_def)
  moreover have "char_int (CHR ''0'') = 48" by (simp add: char_int_def)
  ultimately show ?thesis
    using assms by (simp add: version_digit_def chk_int_def INT_MIN_def INT_MAX_def)
qed

lemma is_digit_digit_char: "d < 10 \<Longrightarrow> is_digit (char_int (digit_char d))"
  by (simp add: is_digit_def char_int_def)

lemma digit_char_not:
  assumes "d < 10"
  shows "digit_char d \<noteq> CHR ''.''" and "digit_char d \<noteq> CR"
proof -
  have d: "isdigit (digit_char d)" using assms by simp
  have "\<not> isdigit (CHR ''.'')" "\<not> isdigit CR" by (simp_all add: isdigit_def)
  with d show "digit_char d \<noteq> CHR ''.''" and "digit_char d \<noteq> CR" by auto
qed

lemma parse_major:
  "int n \<le> INT_MAX - 48 \<Longrightarrow> http_version_major req = 0 \<Longrightarrow>
   parse (S_http_version_major_start, req) (show_nat n @ r) =
   parse (S_http_version_major, req\<lparr>http_version_major := int n\<rparr>) r"
proof (induction n arbitrary: r rule: show_nat.induct)
  case (1 n)
  show ?case
  proof (cases "n < 10")
    case True
    with 1 show ?thesis
      by (subst show_nat.simps) (simp add: is_digit_digit_char version_digit_ok)
  next
    case False
    let ?d = "n mod 10"
    have n: "int (n div 10) * 10 + int ?d = int n"
      by (metis div_mult_mod_eq of_nat_add of_nat_mult of_nat_numeral)
    then have "version_digit (int (n div 10)) (digit_char ?d) = Inr (int n)"
      using "1.prems" version_digit_ok [of ?d "int (n div 10)"] by simp
    then have "parse (S_http_version_major, req\<lparr>http_version_major := int (n div 10)\<rparr>) (digit_char ?d # r) =
        parse (S_http_version_major, req\<lparr>http_version_major := int n\<rparr>) r"
      using digit_char_not [of ?d] by (simp add: is_digit_digit_char)
    then show ?thesis
      using False 1 n by (subst show_nat.simps) simp
  qed
qed

lemma parse_minor:
  "int n \<le> INT_MAX - 48 \<Longrightarrow> http_version_minor req = 0 \<Longrightarrow>
   parse (S_http_version_minor_start, req) (show_nat n @ r) =
   parse (S_http_version_minor, req\<lparr>http_version_minor := int n\<rparr>) r"
proof (induction n arbitrary: r rule: show_nat.induct)
  case (1 n)
  show ?case
  proof (cases "n < 10")
    case True
    with 1 show ?thesis
      by (subst show_nat.simps) (simp add: is_digit_digit_char version_digit_ok)
  next
    case False
    let ?d = "n mod 10"
    have n: "int (n div 10) * 10 + int ?d = int n"
      by (metis div_mult_mod_eq of_nat_add of_nat_mult of_nat_numeral)
    then have "version_digit (int (n div 10)) (digit_char ?d) = Inr (int n)"
      using "1.prems" version_digit_ok [of ?d "int (n div 10)"] by simp
    then have "parse (S_http_version_minor, req\<lparr>http_version_minor := int (n div 10)\<rparr>) (digit_char ?d # r) =
        parse (S_http_version_minor, req\<lparr>http_version_minor := int n\<rparr>) r"
      using digit_char_not [of ?d] by (simp add: is_digit_digit_char)
    then show ?thesis
      using False 1 n by (subst show_nat.simps) simp
  qed
qed

lemma parse_printed:
  assumes "wf_request req"
  shows "parse (S_method_start, req0) (print_request req @ rest) =
    Inr (good,
      (S_expecting_newline_3,
       \<lparr>meth = meth req0 @ meth req, uri = uri req0 @ uri req,
        http_version_major = http_version_major req, http_version_minor = http_version_minor req,
        headers = headers req0 @ headers req\<rparr>), rest)"
proof -
  obtain c cs where m: "meth req = c # cs" and c: "is_token_char c" and cs: "list_all is_token_char cs"
    using assms by (cases "meth req") (auto simp: wf_request_def)
  from assms obtain mj mn where ver: "http_version_major req = int mj" "http_version_minor req = int mn"
    and bounds: "int mj \<le> INT_MAX - 48" "int mn \<le> INT_MAX - 48"
    by (auto simp: wf_request_def dest!: zero_le_imp_eq_int)
  have u: "list_all (\<lambda>c. is_text_char c \<and> c \<noteq> SP) (uri req)" and hs: "list_all wf_header (headers req)"
    using assms by (auto simp: wf_request_def)
  let ?tail2 = "concat (map print_header (headers req)) @ [CR, LF] @ rest"
  let ?tail1 = "show_nat mn @ CR # LF # ?tail2"
  let ?r1 = "req0\<lparr>meth := meth req0 @ meth req, uri := uri req0 @ uri req,
    http_version_major := 0, http_version_minor := 0\<rparr>"
  have "parse (S_method_start, req0) (print_request req @ rest) =
      parse (S_method, req0\<lparr>meth := meth req0 @ [c]\<rparr>)
        (cs @ SP # uri req @ SP # ''HTTP/'' @ show_nat mj @ CHR ''.'' # ?tail1)"
    using c by (simp add: print_request_def m ver is_token_char_def)
  also have "\<dots> = parse (S_http_version_major_start, ?r1) (show_nat mj @ CHR ''.'' # ?tail1)"
    by (subst parse_method [OF cs]) (simp add: parse_uri [OF u] expect_def m)
  also have "\<dots> = parse (S_http_version_minor_start, ?r1\<lparr>http_version_major := int mj\<rparr>) ?tail1"
    using bounds by (subst parse_major) simp_all
  also have "\<dots> = parse (S_header_line_start,
      ?r1\<lparr>http_version_major := int mj, http_version_minor := int mn\<rparr>) ?tail2"
    using bounds by (subst parse_minor) (simp_all add: expect_def)
  also have "\<dots> = Inr (good, (S_expecting_newline_3, ?r1\<lparr>http_version_major := int mj,
      http_version_minor := int mn, headers := headers req0 @ headers req\<rparr>), rest)"
    by (subst parse_headers [OF hs]) simp
  finally show ?thesis by (simp add: ver)
qed

text \<open>
  C14: The parser recovers a printed request.  From \<open>method_start\<close>, with \<open>req0\<close> whatever the
  request object already holds, it reads a well-formed request byte for byte, answers \<open>good\<close>
  at the byte that ends the header block and leaves the rest of the input.  The version
  numbers are replaced; method, URI and headers are appended to what \<open>req0\<close> holds, so
  \<open>reset()\<close> alone does not make the parser ready for the next request.
\<close>

theorem parse_print_request:
  assumes "wf_request req"
  shows "parse (S_method_start, req0) (print_request req @ rest) =
    Inr (good,
      (S_expecting_newline_3,
       \<lparr>meth = meth req0 @ meth req, uri = uri req0 @ uri req,
        http_version_major = http_version_major req, http_version_minor = http_version_minor req,
        headers = headers req0 @ headers req\<rparr>), rest)"
  using assms by (rule parse_printed)

definition empty_request :: request where
  "empty_request = \<lparr>meth = [], uri = [], http_version_major = 0, http_version_minor = 0, headers = []\<rparr>"

text \<open>
  The request object of a new session: nothing read, and version numbers that are whatever the
  memory held, since nothing initialises them.
\<close>

definition fresh :: "request \<Rightarrow> bool" where
  "fresh req \<longleftrightarrow> meth req = [] \<and> uri req = [] \<and> headers req = []"

lemma fresh_empty_request [simp]: "fresh empty_request"
  by (simp add: fresh_def empty_request_def)

lemma parse_printed_fresh:
  "wf_request req \<Longrightarrow> fresh req0 \<Longrightarrow>
   parse (S_method_start, req0) (print_request req @ rest) = Inr (good, (S_expecting_newline_3, req), rest)"
  by (simp add: parse_printed fresh_def)

definition sample_request :: request where
  "sample_request = \<lparr>meth = ''POST'', uri = ''/api/Shoes'', http_version_major = 1, http_version_minor = 1,
     headers = [\<lparr>hdr_name = ''Host'', hdr_value = ''localhost''\<rparr>,
                \<lparr>hdr_name = ''Content-Length'', hdr_value = ''2''\<rparr>]\<rparr>"

lemma wf_sample_request: "wf_request sample_request"
  by code_simp

theorem parse_print_request_witness:
  "parse (S_method_start, empty_request) (print_request sample_request @ ''{}'') =
    Inr (good, (S_expecting_newline_3, sample_request), ''{}'')"
  using parse_print_request [OF wf_sample_request, of empty_request "''{}''"]
  by (simp add: empty_request_def sample_request_def)

subsection \<open>Resuming the parser\<close>


subsection \<open>What a run has read\<close>

text \<open>
  The states reachable from a fresh parser and request, with the bytes read so far; and what
  each state knows of those bytes and of the request.
\<close>

inductive reaches :: "string \<Rightarrow> parser_state \<times> request \<Rightarrow> bool" where
  start: "fresh req \<Longrightarrow> reaches [] (S_method_start, req)"
| step: "reaches pre s \<Longrightarrow> consume s c = Inr (s', indeterminate) \<Longrightarrow> reaches (pre @ [c]) s'"

definition BLANK_LINE :: string where
  "BLANK_LINE = [CR, LF, CR, LF]"

definition in_version :: "parser_state set" where
  "in_version = {S_http_version_major_start, S_http_version_major,
     S_http_version_minor_start, S_http_version_minor}"

definition in_header :: "parser_state set" where
  "in_header = {S_header_lws, S_header_name, S_space_before_header_value, S_header_value, S_expecting_newline_2}"

definition before_headers :: "parser_state set" where
  "before_headers = {S_method_start, S_method, S_uri, S_http_version_h, S_http_version_t_1,
     S_http_version_t_2, S_http_version_p, S_http_version_slash, S_expecting_newline_1} \<union> in_version"

definition ends_in :: "string \<Rightarrow> string \<Rightarrow> bool" where
  "ends_in p s \<longleftrightarrow> drop (length s - length p) s = p"

text \<open>The line ends a state has just read.\<close>

fun line_end :: "parser_state \<Rightarrow> string \<Rightarrow> bool" where
  "line_end S_header_line_start pre = ends_in [CR, LF] pre"
| "line_end S_expecting_newline_1 pre = (ends_in [CR] pre \<and> \<not> ends_in [LF, CR] pre)"
| "line_end S_expecting_newline_2 pre = (ends_in [CR] pre \<and> \<not> ends_in [LF, CR] pre)"
| "line_end S_expecting_newline_3 pre = ends_in [CR, LF, CR] pre"
| "line_end s pre = (\<not> ends_in [LF] pre)"

text \<open>The request line as far as it has been read.\<close>

fun request_line :: "parser_state \<Rightarrow> request \<Rightarrow> string \<Rightarrow> bool" where
  "request_line S_method_start req pre = (pre = [] \<and> meth req = [] \<and> uri req = [])"
| "request_line S_method req pre = (pre = meth req \<and> uri req = [] \<and> meth req \<noteq> [])"
| "request_line S_uri req pre = (pre = meth req @ SP # uri req \<and> meth req \<noteq> [])"
| "request_line s req pre = (meth req \<noteq> [] \<and> starts_with (meth req @ SP # uri req @ [SP]) pre)"

definition text_only :: "request \<Rightarrow> bool" where
  "text_only req \<longleftrightarrow> list_all is_token_char (meth req) \<and>
     list_all (\<lambda>c. is_text_char c \<and> c \<noteq> SP) (uri req) \<and> list_all wf_header (headers req)"

definition version_in_range :: "request \<Rightarrow> bool" where
  "version_in_range req \<longleftrightarrow>
     0 \<le> http_version_major req \<and> http_version_major req \<le> INT_MAX \<and>
     0 \<le> http_version_minor req \<and> http_version_minor req \<le> INT_MAX"

definition before_version :: "parser_state set" where
  "before_version = {S_method_start, S_method, S_uri, S_http_version_h, S_http_version_t_1,
     S_http_version_t_2, S_http_version_p, S_http_version_slash}"

definition parser_inv :: "parser_state \<times> request \<Rightarrow> string \<Rightarrow> bool" where
  "parser_inv s pre \<longleftrightarrow>
     find_str BLANK_LINE pre = None \<and> NUL \<notin> set pre \<and> line_end (fst s) pre \<and>
     request_line (fst s) (snd s) pre \<and> text_only (snd s) \<and>
     (fst s \<notin> before_version \<longrightarrow> version_in_range (snd s)) \<and>
     (fst s \<in> in_header \<longrightarrow> headers (snd s) \<noteq> []) \<and>
     (fst s \<in> before_headers \<longrightarrow> headers (snd s) = [])"

lemma ends_in_snoc: "ends_in (p @ [c]) (s @ [d]) \<longleftrightarrow> c = d \<and> ends_in p s"
  by (cases "length p \<le> length s") (auto simp: ends_in_def)

lemma ends_in_Nil [simp]: "ends_in [] s"
  by (simp add: ends_in_def)

lemma ends_in_empty [simp]: "ends_in (c # p) [] \<longleftrightarrow> False"
  by (simp add: ends_in_def)

lemma ends_in_simps [simp]:
  "ends_in [a] (s @ [d]) \<longleftrightarrow> a = d"
  "ends_in [a, b] (s @ [d]) \<longleftrightarrow> b = d \<and> ends_in [a] s"
  "ends_in [a, b, c] (s @ [d]) \<longleftrightarrow> c = d \<and> ends_in [a, b] s"
  "ends_in [a, b, c, e] (s @ [d]) \<longleftrightarrow> e = d \<and> ends_in [a, b, c] s"
  using ends_in_snoc [of "[]" a s d] ends_in_snoc [of "[a]" b s d] ends_in_snoc [of "[a, b]" c s d]
    ends_in_snoc [of "[a, b, c]" e s d] by auto

lemma ends_in_append: "ends_in p s \<longleftrightarrow> (\<exists>a. s = a @ p)"
proof
  assume "ends_in p s"
  then show "\<exists>a. s = a @ p" by (metis append_take_drop_id ends_in_def)
qed (auto simp: ends_in_def)

text \<open>A new byte brings a blank line only when it completes one.\<close>

lemma find_str_snoc_None:
  assumes "find_str p s = None" and "p \<noteq> []" and "\<not> ends_in p (s @ [c])"
  shows "find_str p (s @ [c]) = None"
proof (rule ccontr)
  assume "find_str p (s @ [c]) \<noteq> None"
  then obtain a b where ab: "s @ [c] = a @ p @ b" using find_str_None_iff [of p "s @ [c]"] by auto
  show False
  proof (cases b rule: rev_cases)
    case Nil
    with ab assms(3) show ?thesis by (auto simp: ends_in_append)
  next
    case (snoc b' d)
    with ab have "s = a @ p @ b'" by simp
    with assms(1) show ?thesis by (metis find_str_None_iff)
  qed
qed

lemma blank_line_snoc:
  assumes "find_str BLANK_LINE s = None" and "c = LF \<Longrightarrow> \<not> ends_in [CR, LF, CR] s"
  shows "find_str BLANK_LINE (s @ [c]) = None"
  by (rule find_str_snoc_None) (use assms in \<open>auto simp: BLANK_LINE_def\<close>)

text \<open>The characters a step accepts.\<close>

lemma not_token_facts [simp]: "not_token LF" "not_token NUL" "not_token CR" "not_token SP" "not_token TAB"
  "is_ctl (char_int LF)" "is_ctl (char_int NUL)" "is_ctl (char_int CR)"
  "\<not> is_digit (char_int LF)" "\<not> is_digit (char_int NUL)" "\<not> is_digit (char_int CR)"
  by (simp_all add: not_token_def is_ctl_def is_tspecial_def tspecials_def char_int_def is_digit_def)

lemma expect_eq [res_simps]:
  "expect e nxt st req c = Inr (s', v) \<longleftrightarrow>
    (c = e \<and> s' = (nxt, req) \<and> v = indeterminate) \<or> (c \<noteq> e \<and> s' = (st, req) \<and> v = bad)"
  by (auto simp: expect_def)

lemma consume_not_NUL: "consume s c = Inr (s', indeterminate) \<Longrightarrow> c \<noteq> NUL"
  by (cases "(s, c)" rule: consume.cases) (auto simp: res_simps split: if_splits)

lemma consume_LF: "consume s LF = Inr (s', indeterminate) \<Longrightarrow> fst s \<in> {S_expecting_newline_1, S_expecting_newline_2}"
  by (cases "(s, LF)" rule: consume.cases) (auto simp: res_simps split: if_splits)

lemma consume_good: "consume s c = Inr (s', good) \<Longrightarrow> fst s = S_expecting_newline_3 \<and> c = LF \<and> s' = s"
  by (cases "(s, c)" rule: consume.cases) (auto simp: res_simps split: if_splits)

lemma consume_line_end:
  "line_end (fst s) pre \<Longrightarrow> consume s c = Inr (s', indeterminate) \<Longrightarrow> line_end (fst s') (pre @ [c])"
  by (cases "(s, c)" rule: consume.cases) (auto simp: res_simps split: if_splits)


lemma starts_with_snoc: "starts_with p s \<Longrightarrow> starts_with p (s @ [c])"
  by (auto simp: starts_with_iff)

lemma update_last_header_eq [res_simps]:
  "update_last_header f req = Inr req' \<longleftrightarrow>
    headers req \<noteq> [] \<and> req' = req\<lparr>headers := butlast (headers req) @ [f (last (headers req))]\<rparr>"
  by (auto simp: update_last_header_def vec_back_def)

lemma version_digit_bounds:
  assumes "version_digit v c = Inr w" "0 \<le> v" "is_digit (char_int c)"
  shows "0 \<le> w \<and> w \<le> INT_MAX"
  using assms by (auto simp: version_digit_def res_simps is_digit_def char_int_def)

lemma consume_request_line:
  "request_line (fst s) (snd s) pre \<Longrightarrow> consume s c = Inr (s', indeterminate) \<Longrightarrow>
   request_line (fst s') (snd s') (pre @ [c])"
  by (cases "(s, c)" rule: consume.cases) (auto simp: res_simps starts_with_snoc split: if_splits)

lemma wf_header_new: "is_token_char c \<Longrightarrow> wf_header \<lparr>hdr_name = [c], hdr_value = []\<rparr>"
  by (simp add: wf_header_def)

lemma wf_header_push:
  "wf_header h \<Longrightarrow> is_token_char c \<Longrightarrow> wf_header (push_name c h)"
  "wf_header h \<Longrightarrow> is_text_char c \<Longrightarrow> wf_header (push_value c h)"
  by (auto simp: wf_header_def push_name_def push_value_def)

lemma list_all_butlast_last:
  "list_all P xs \<Longrightarrow> list_all P (butlast xs)" "list_all P xs \<Longrightarrow> xs \<noteq> [] \<Longrightarrow> P (last xs)"
  by (auto simp: list_all_iff dest: in_set_butlastD)

lemma update_last_header_text_only:
  assumes "update_last_header f req = Inr req'" "text_only req"
    and "\<And>h. wf_header h \<Longrightarrow> wf_header (f h)"
  shows "text_only req'"
  using assms list_all_butlast_last [of wf_header "headers req"]
  by (auto simp: text_only_def res_simps)

lemmas push_text_only =
  update_last_header_text_only [OF _ _ wf_header_push(1)]
  update_last_header_text_only [OF _ _ wf_header_push(2)]

lemma text_only_updates:
  "text_only req \<Longrightarrow> is_token_char c \<Longrightarrow> text_only (req\<lparr>meth := meth req @ [c]\<rparr>)"
  "text_only req \<Longrightarrow> is_text_char c \<Longrightarrow> c \<noteq> SP \<Longrightarrow> text_only (req\<lparr>uri := uri req @ [c]\<rparr>)"
  "text_only req \<Longrightarrow> text_only (req\<lparr>http_version_major := v, http_version_minor := v'\<rparr>)"
  "text_only req \<Longrightarrow> text_only (req\<lparr>http_version_major := v\<rparr>)"
  "text_only req \<Longrightarrow> text_only (req\<lparr>http_version_minor := v\<rparr>)"
  "text_only req \<Longrightarrow> is_token_char c \<Longrightarrow>
    text_only (req\<lparr>headers := headers req @ [\<lparr>hdr_name = [c], hdr_value = []\<rparr>]\<rparr>)"
  "text_only req \<Longrightarrow> is_token_char c \<Longrightarrow> text_only (req\<lparr>headers := [\<lparr>hdr_name = [c], hdr_value = []\<rparr>]\<rparr>)"
  by (auto simp: text_only_def wf_header_new)

lemma version_in_range_updates:
  "version_in_range (req\<lparr>http_version_major := 0, http_version_minor := 0\<rparr>)"
  "version_in_range req \<Longrightarrow> version_digit (http_version_major req) c = Inr v \<Longrightarrow> is_digit (char_int c) \<Longrightarrow>
    version_in_range (req\<lparr>http_version_major := v\<rparr>)"
  "version_in_range req \<Longrightarrow> version_digit (http_version_minor req) c = Inr v \<Longrightarrow> is_digit (char_int c) \<Longrightarrow>
    version_in_range (req\<lparr>http_version_minor := v\<rparr>)"
  "version_in_range (req\<lparr>headers := hs\<rparr>) = version_in_range req"
  by (auto simp: version_in_range_def INT_MAX_def dest: version_digit_bounds)

lemma consume_version:
  assumes "consume s c = Inr (s', indeterminate)"
    and "fst s \<notin> before_version \<longrightarrow> version_in_range (snd s)"
  shows "fst s' \<notin> before_version \<longrightarrow> version_in_range (snd s')"
  using assms
  by (cases "(s, c)" rule: consume.cases)
    (auto simp: bind_res_eq_Inr expect_eq update_last_header_eq before_version_def version_in_range_updates
      intro: version_in_range_updates split: if_splits)

lemma consume_text_only:
  "text_only (snd s) \<Longrightarrow> consume s c = Inr (s', indeterminate) \<Longrightarrow> text_only (snd s')"
  by (cases "(s, c)" rule: consume.cases)
    (auto simp: bind_res_eq_Inr expect_eq token_char_iff is_text_char_def [symmetric]
      intro: text_only_updates push_text_only split: if_splits)

lemma consume_headers:
  assumes "consume s c = Inr (s', indeterminate)"
    and "fst s \<in> in_header \<longrightarrow> headers (snd s) \<noteq> []"
  shows "fst s' \<in> in_header \<longrightarrow> headers (snd s') \<noteq> []"
  using assms
  by (cases "(s, c)" rule: consume.cases) (auto simp: res_simps in_header_def split: if_splits)

lemma consume_before_headers:
  assumes "consume s c = Inr (s', indeterminate)"
    and "fst s \<in> before_headers \<longrightarrow> headers (snd s) = []"
  shows "fst s' \<in> before_headers \<longrightarrow> headers (snd s') = []"
  using assms
  by (cases "(s, c)" rule: consume.cases) (auto simp: res_simps before_headers_def in_version_def split: if_splits)


lemma consume_parser_inv:
  assumes I: "parser_inv s pre" and step: "consume s c = Inr (s', indeterminate)"
  shows "parser_inv s' (pre @ [c])"
proof -
  have "c = LF \<Longrightarrow> \<not> ends_in [CR, LF, CR] pre"
  proof -
    assume "c = LF"
    with step have "fst s \<in> {S_expecting_newline_1, S_expecting_newline_2}" by (blast dest: consume_LF)
    with I have "\<not> ends_in [LF, CR] pre" by (auto simp: parser_inv_def)
    then show "\<not> ends_in [CR, LF, CR] pre" by (auto simp: ends_in_append)
  qed
  then have "find_str BLANK_LINE (pre @ [c]) = None"
    using I by (intro blank_line_snoc) (auto simp: parser_inv_def)
  moreover have "c \<noteq> NUL" using step by (rule consume_not_NUL)
  ultimately show ?thesis
    using I consume_line_end [OF _ step] consume_request_line [OF _ step] consume_text_only [OF _ step]
      consume_version [OF step] consume_headers [OF step] consume_before_headers [OF step]
    unfolding parser_inv_def by simp
qed

lemma parser_inv_start: "fresh req \<Longrightarrow> parser_inv (S_method_start, req) []"
  by (simp add: parser_inv_def BLANK_LINE_def fresh_def text_only_def before_version_def in_header_def)

lemma reaches_parser_inv: "reaches pre s \<Longrightarrow> parser_inv s pre"
  by (induction rule: reaches.induct) (auto simp: parser_inv_start intro: consume_parser_inv)

lemma reaches_parse:
  "parse (S_method_start, req) cs = Inr (indeterminate, s, rest) \<Longrightarrow> fresh req \<Longrightarrow> reaches cs s"
  using rp.run_invariant [of "(S_method_start, req)" cs indeterminate s rest "\<lambda>s pre. reaches pre s" "[]"]
    reaches.step
  by (auto simp: reaches.start) (metis (full_types) result_type.exhaust)

lemma parse_good_block:
  assumes "parse (S_method_start, req0) bytes = Inr (good, (st, req), rest)" and "fresh req0"
  shows "\<exists>block. bytes = block @ rest \<and> NUL \<notin> set block \<and>
    find_str BLANK_LINE bytes = Some (length block - 4) \<and> 4 \<le> length block \<and>
    starts_with (meth req @ [SP] @ uri req @ [SP]) block \<and> meth req \<noteq> [] \<and>
    text_only req \<and> version_in_range req"
proof -
  from rp.run_invariant [OF assms(1), of "\<lambda>s pre. parser_inv s pre" "[]"]
  obtain u c s0 where bytes: "bytes = u @ c # rest" and I: "parser_inv s0 u"
    and step: "consume s0 c = Inr ((st, req), good)"
    using consume_parser_inv parser_inv_start [OF assms(2)] by (auto) (metis (full_types) result_type.exhaust)+
  from consume_good [OF step] have s0: "s0 = (S_expecting_newline_3, req)" and c: "c = LF" by auto
  with I obtain a where u: "u = a @ [CR, LF, CR]" by (auto simp: parser_inv_def ends_in_append)
  have block: "u @ [c] = a @ BLANK_LINE" by (simp add: u c BLANK_LINE_def)
  have X: "a @ BLANK_LINE @ rest = u @ LF # rest" and lu: "length u = length a + 3"
    by (simp_all add: u BLANK_LINE_def)
  have none: "find_str BLANK_LINE u = None" using I by (simp add: parser_inv_def)
  have "find_str BLANK_LINE (a @ BLANK_LINE @ rest) = Some (length a)"
  proof (rule find_str_eqI, rule notI)
    fix j assume j: "j < length a" and "starts_with BLANK_LINE (drop j (a @ BLANK_LINE @ rest))"
    then obtain r where r: "drop j (a @ BLANK_LINE @ rest) = BLANK_LINE @ r" by (auto simp only: starts_with_iff)
    have "take 4 (drop j (a @ BLANK_LINE @ rest)) = BLANK_LINE"
      unfolding r by (simp add: BLANK_LINE_def)
    moreover have "take 4 (drop j (a @ BLANK_LINE @ rest)) = take 4 (drop j u)"
      using j lu unfolding X by simp
    ultimately have "u = take j u @ BLANK_LINE @ drop 4 (drop j u)" by (metis append_take_drop_id)
    with none show False by (metis find_str_None_iff)
  qed
  moreover have "starts_with (meth req @ [SP] @ uri req @ [SP]) (u @ [c])"
    using I s0 by (intro starts_with_snoc) (simp add: parser_inv_def)
  moreover have "length (u @ [c]) = length a + 4" "bytes = (u @ [c]) @ rest" "bytes = a @ BLANK_LINE @ rest"
    using bytes block by (simp_all add: u BLANK_LINE_def c)
  ultimately show ?thesis
    using I s0 c by (intro exI [of _ "u @ [c]"]) (simp add: parser_inv_def before_version_def)
qed


text \<open>
  C10: What a good verdict says of the bytes.  The parser of a fresh connection answers \<open>good\<close>
  exactly at the first blank line: the bytes read end in it, contain no earlier one and no NUL
  byte, start with the method, a space, the URI and a space, and the request holds only
  characters the grammar allows, with version numbers that are \<open>int\<close>s.
\<close>

theorem parse_good_reads_header_block:
  assumes "parse (S_method_start, req0) bytes = Inr (good, (st, req), rest)" and "fresh req0"
  shows "\<exists>block. bytes = block @ rest \<and> NUL \<notin> set block \<and>
    find_str BLANK_LINE bytes = Some (length block - 4) \<and> 4 \<le> length block \<and>
    starts_with (meth req @ [SP] @ uri req @ [SP]) block \<and> meth req \<noteq> [] \<and>
    text_only req \<and> version_in_range req"
  using assms by (rule parse_good_block)

theorem parse_good_reads_header_block_witness:
  "\<exists>block. print_request sample_request @ ''{}'' = block @ ''{}'' \<and> NUL \<notin> set block \<and>
    find_str BLANK_LINE (print_request sample_request @ ''{}'') = Some (length block - 4) \<and>
    4 \<le> length block \<and> starts_with (''POST'' @ [SP] @ ''/api/Shoes'' @ [SP]) block \<and>
    ''POST'' \<noteq> [] \<and> text_only sample_request \<and> version_in_range sample_request"
proof -
  have "parse (S_method_start, empty_request) (print_request sample_request @ ''{}'') =
    Inr (good, (S_expecting_newline_3, sample_request), ''{}'')"
    by code_simp
  from parse_good_reads_header_block [OF this fresh_empty_request] show ?thesis by (simp add: sample_request_def)
qed

text \<open>
  C15: The parser is safe up to the version number.  In every state a fresh connection can reach,
  the next byte has no result exactly when the parser is reading a version number and the byte
  is a digit whose \<open>version * 10 + input\<close> does not fit in an \<open>int\<close>; \<open>headers.back()\<close> always
  has a header to return.
\<close>

theorem consume_fails_iff:
  assumes "reaches pre (st, req)"
  shows "consume (st, req) c = Inl e \<longleftrightarrow>
    e = Undefined_Behaviour \<and> st \<in> in_version \<and> is_digit (char_int c) \<and>
    (if st \<in> {S_http_version_major_start, S_http_version_major}
     then http_version_major req * 10 + char_int c > INT_MAX
     else http_version_minor req * 10 + char_int c > INT_MAX)"
proof -
  have I: "parser_inv (st, req) pre" using assms by (rule reaches_parser_inv)
  then have nonneg: "st \<in> in_version \<Longrightarrow> 0 \<le> http_version_major req \<and> 0 \<le> http_version_minor req"
    and hs: "st \<in> in_header \<Longrightarrow> headers req \<noteq> []"
    by (auto simp: parser_inv_def version_in_range_def before_version_def in_version_def)
  have ver: "version_digit v c = Inl e \<longleftrightarrow> e = Undefined_Behaviour \<and> v * 10 + char_int c > INT_MAX"
    if "0 \<le> v" "is_digit (char_int c)" for v
    using that by (auto simp: version_digit_def chk_int_def bind_res_def is_digit_def char_int_def INT_MAX_def INT_MIN_def)
  have upd: "headers req \<noteq> [] \<Longrightarrow> \<exists>r. update_last_header f req = Inr r" for f
    by (simp add: update_last_header_def vec_back_def)
  have dots: "\<not> is_digit (char_int (CHR ''.''))" "\<not> is_digit (char_int CR)"
    by (simp_all add: is_digit_def char_int_def)
  show ?thesis
    using nonneg hs upd [of "push_name c"] upd [of "push_value c"] ver dots
    by (cases st) (auto simp: expect_def in_version_def in_header_def bind_res_eq_Inl split: if_splits)
qed

theorem consume_fails_iff_witness:
  "consume (S_http_version_major, empty_request\<lparr>meth := ''G'', http_version_major := 999999999\<rparr>) (CHR ''9'') =
    Inl Undefined_Behaviour"
proof -
  have "reaches (''G  HTTP/999999999'')
      (S_http_version_major, empty_request\<lparr>meth := ''G'', http_version_major := 999999999\<rparr>)"
    by (rule reaches_parse [of empty_request _ _ "[]"]) (code_simp, simp)
  from consume_fails_iff [OF this, of "CHR ''9''" Undefined_Behaviour] show ?thesis
    by (simp add: in_version_def is_digit_def char_int_def INT_MAX_def del: consume.simps)
qed

end
