(* ===== verification/Reply.thy ===== *)
theory Reply
  imports Request_Parser
begin

section \<open>Replies\<close>

text \<open>
  include/reply.h and src/reply.cc: the statuses and request types, the stock replies and the
  buffers a reply is written from.  A \<open>const_buffer\<close> is the bytes it refers to; the vector of
  buffers is their list, and what goes out on the wire is its concatenation.
\<close>

datatype status_type = status_ok | status_bad_request | status_not_found | status_internal_server_error

datatype request_type =
    type_echo | type_static | type_crud | type_health | type_not_found | type_sleep | type_markdown

record reply =
  rep_status :: status_type
  rep_headers :: "header list"
  rep_content :: string

text \<open>The values of the enumerators.\<close>

definition status_code :: "status_type \<Rightarrow> nat" where
  "status_code s = (case s of status_ok \<Rightarrow> 200 | status_bad_request \<Rightarrow> 400
     | status_not_found \<Rightarrow> 404 | status_internal_server_error \<Rightarrow> 500)"

definition stock_ok :: string where "stock_ok = ''''"

definition stock_bad_request :: string where
  "stock_bad_request = ''<html>'' @ ''<head><title>Bad Request</title></head>'' @
     ''<body><h1>400 Bad Request</h1></body>'' @ ''</html>''"

definition stock_not_found :: string where
  "stock_not_found = ''<html>'' @ ''<head><title>Not Found</title></head>'' @
     ''<body><h1>404 Not Found</h1></body>'' @ ''</html>''"

definition stock_server_error :: string where
  "stock_server_error = ''<html>'' @ ''<head><title>Internal Server Error</title></head>'' @
     ''<body><h1>500 Internal Server Error</h1></body>'' @ ''</html>''"

definition to_buffer :: "status_type \<Rightarrow> string" where
  "to_buffer s = (case s of
       status_ok \<Rightarrow> ''HTTP/1.0 200 OK'' @ [CR, LF]
     | status_bad_request \<Rightarrow> ''HTTP/1.0 400 Bad Request'' @ [CR, LF]
     | status_not_found \<Rightarrow> ''HTTP/1.0 404 Not Found'' @ [CR, LF]
     | _ \<Rightarrow> ''HTTP/1.0 500 Internal Server Error'' @ [CR, LF])"

fun header_buffers :: "header list \<Rightarrow> string list" where
  "header_buffers [] = []"
| "header_buffers (h # hs) = [hdr_name h, '': '', hdr_value h, [CR, LF]] @ header_buffers hs"

definition to_buffers :: "reply \<Rightarrow> string list" where
  "to_buffers r = [to_buffer (rep_status r)] @ header_buffers (rep_headers r) @ [[CR, LF], rep_content r]"

definition stock_reply :: "status_type \<Rightarrow> reply" where
  "stock_reply s =
     (let content = (case s of status_ok \<Rightarrow> stock_ok | status_bad_request \<Rightarrow> stock_bad_request
          | status_not_found \<Rightarrow> stock_not_found | status_internal_server_error \<Rightarrow> stock_server_error)
      in \<lparr>rep_status = s,
          rep_headers = [\<lparr>hdr_name = ''Content-Length'', hdr_value = show_nat (length content)\<rparr>,
                         \<lparr>hdr_name = ''Content-Type'', hdr_value = ''text/html''\<rparr>],
          rep_content = content\<rparr>)"

subsection \<open>What a reply says on the wire\<close>

text \<open>The value of a header field and the bytes after the header block, as a client reads them.\<close>

definition field_value :: "string \<Rightarrow> header list \<Rightarrow> string option" where
  "field_value name hs = map_option hdr_value (find (\<lambda>h. hdr_name h = name) hs)"

definition wire :: "reply \<Rightarrow> string" where
  "wire r = concat (to_buffers r)"

lemma concat_header_buffers: "concat (header_buffers hs) = concat (map print_header hs)"
  by (induction hs) (simp_all add: print_header_def)

text \<open>A header block whose fields hold no line end has its first blank line at its end.\<close>

definition no_line_end :: "header \<Rightarrow> bool" where
  "no_line_end h \<longleftrightarrow> hdr_name h \<noteq> [] \<and> list_all is_text_char (hdr_name h) \<and> list_all is_text_char (hdr_value h)"

lemma starts_with_Cons: "starts_with (p # ps) s \<longleftrightarrow> (\<exists>cs. s = p # cs \<and> starts_with ps cs)"
  by (cases s) auto

lemma find_blank_line_text:
  assumes "list_all is_text_char xs"
  shows "find_str BLANK_LINE (xs @ s) = map_option (\<lambda>i. length xs + i) (find_str BLANK_LINE s)"
  using assms
proof (induction xs)
  case Nil
  then show ?case by (cases "find_str BLANK_LINE s") simp_all
next
  case (Cons x xs)
  then have "x \<noteq> CR" by (auto dest: text_char_facts)
  with Cons show ?case by (cases "find_str BLANK_LINE s") (simp_all add: BLANK_LINE_def)
qed

lemma find_blank_line_line:
  assumes "list_all is_text_char xs" and "s = c # cs" and "c \<noteq> CR"
  shows "find_str BLANK_LINE (xs @ [CR, LF] @ s) =
    map_option (\<lambda>i. length xs + 2 + i) (find_str BLANK_LINE s)"
  unfolding find_blank_line_text [OF assms(1)]
  using assms(2,3) by (simp add: BLANK_LINE_def option.map_comp comp_def)

lemma find_blank_line_end:
  "list_all is_text_char xs \<Longrightarrow> find_str BLANK_LINE (xs @ CR # LF # CR # LF # s) = Some (length xs)"
  by (simp add: find_blank_line_text) (simp add: BLANK_LINE_def)

lemma find_blank_line_headers:
  assumes "list_all is_text_char xs" and "list_all no_line_end hs"
  shows "find_str BLANK_LINE (xs @ [CR, LF] @ concat (map print_header hs) @ [CR, LF] @ body) =
    Some (length xs + length (concat (map print_header hs)))"
  using assms
proof (induction hs arbitrary: xs)
  case Nil
  then show ?case by (simp add: find_blank_line_end)
next
  case (Cons h hs)
  let ?line = "hdr_name h @ '': '' @ hdr_value h"
  have t: "list_all is_text_char ?line"
    using Cons.prems(2) by (simp add: no_line_end_def is_text_char_def is_ctl_def char_int_def)
  obtain c cs where n: "?line = c # cs" "c \<noteq> CR"
  proof (cases "?line")
    case (Cons c cs)
    then have "is_text_char c" using t by (metis list.pred_inject(2))
    then show ?thesis using Cons that text_char_facts(1) by blast
  qed (use Cons.prems(2) in \<open>simp add: no_line_end_def\<close>)
  from Cons.IH [OF t] Cons.prems(2)
  have *: "find_str BLANK_LINE (?line @ [CR, LF] @ concat (map print_header hs) @ [CR, LF] @ body) =
    Some (length ?line + length (concat (map print_header hs)))"
    by simp
  let ?tail = "[CR, LF] @ concat (map print_header hs) @ [CR, LF] @ body"
  have s: "?line @ ?tail = c # (cs @ ?tail)" using n(1) by (metis append_Cons)
  have e: "concat (map print_header (h # hs)) = ?line @ [CR, LF] @ concat (map print_header hs)"
    by (simp add: print_header_def)
  have "find_str BLANK_LINE (xs @ [CR, LF] @ concat (map print_header (h # hs)) @ [CR, LF] @ body) =
      find_str BLANK_LINE (xs @ [CR, LF] @ (?line @ ?tail))"
    by (simp only: e append_assoc)
  also have "\<dots> = Some (length xs + 2 + (length ?line + length (concat (map print_header hs))))"
    unfolding find_blank_line_line [OF Cons.prems(1) s n(2)] * by simp
  finally show ?case unfolding e by simp
qed

text \<open>
  A reply is framed on the wire.  When no header field holds a control character, the first
  blank line of the concatenated buffers is the one after the headers: before it stand the
  status line and one line per field, after it exactly the content.
\<close>

lemma to_buffers_framed:
  assumes "list_all no_line_end (rep_headers r)"
  shows "\<exists>i. find_str BLANK_LINE (wire r) = Some i \<and> drop (i + 4) (wire r) = rep_content r \<and>
    take (i + 2) (wire r) = to_buffer (rep_status r) @ concat (map print_header (rep_headers r))"
proof -
  obtain l where l: "to_buffer (rep_status r) = l @ [CR, LF]" "list_all is_text_char l"
    by (cases "rep_status r") (simp_all add: to_buffer_def is_text_char_def is_ctl_def char_int_def)
  let ?hs = "concat (map print_header (rep_headers r))"
  have w: "wire r = l @ [CR, LF] @ ?hs @ [CR, LF] @ rep_content r"
    by (simp add: wire_def to_buffers_def concat_header_buffers l)
  have "find_str BLANK_LINE (wire r) = Some (length l + length ?hs)"
    unfolding w using l(2) assms by (rule find_blank_line_headers)
  moreover have "drop (length (l @ [CR, LF] @ ?hs @ [CR, LF])) (wire r) = rep_content r"
    unfolding w by (metis append_assoc append_eq_conv_conj)
  then have "drop (length l + length ?hs + 4) (wire r) = rep_content r"
    by (simp add: numeral_eq_Suc)
  moreover have "take (length l + length ?hs + 2) (wire r) = to_buffer (rep_status r) @ ?hs"
    unfolding w l(1) by simp
  ultimately show ?thesis by blast
qed

text \<open>
  The stock replies announce their length: the Content-Length field of each is the decimal
  numeral of the number of bytes of the content, which names the code of the status line.
\<close>

lemma stock_reply_content_length:
  "(case field_value ''Content-Length'' (rep_headers (stock_reply s)) of
      None \<Rightarrow> False
    | Some n \<Rightarrow> stoi n = Some (int (length (rep_content (stock_reply s))))) \<and>
   starts_with (''HTTP/1.0 '' @ show_nat (status_code s) @ [SP]) (wire (stock_reply s)) \<and>
   (find_str (show_nat (status_code s)) (rep_content (stock_reply s)) = None \<longleftrightarrow> s = status_ok)"
  by (induction s) code_simp+

end
