(* ===== verification/Filesystem.thy ===== *)
theory Filesystem
  imports Prelude "HOL-Library.AList" "HOL-Library.Sublist"
begin

section \<open>The file system: interface, contract and the real implementation\<close>

text \<open>
  include/filesystem_interface.h is the record of operations \<open>filesystem_interface\<close>, a table of
  functions as the handlers call it through their pointer; what the handlers may rely on is the
  locale \<open>filesystem_contract\<close>.  src/real_filesystem.cc implements the interface on a tree of
  files and directories with a working directory, where paths resolve as POSIX does: \<open>.\<close>,
  \<open>..\<close>, repeated and trailing slashes, missing components (ENOENT) and files used as
  directories (ENOTDIR).  Links, permissions, and limits on names and space are left out.  A
  \<open>std::filesystem::filesystem_error\<close> is \<open>Filesystem_Error\<close>; streams that do not open fail silently, as in
  the source.
\<close>

subsection \<open>The interface\<close>

record 'fs filesystem_interface =
  file_exists :: "'fs \<Rightarrow> string \<Rightarrow> bool result"
  read_file :: "'fs \<Rightarrow> string \<Rightarrow> string \<Rightarrow> (string \<times> bool) result"
  write_file :: "'fs \<Rightarrow> string \<Rightarrow> string \<Rightarrow> 'fs result"
  delete_file :: "'fs \<Rightarrow> string \<Rightarrow> ('fs \<times> bool) result"
  list_files :: "'fs \<Rightarrow> string \<Rightarrow> string list result"

subsection \<open>Trees and paths\<close>

datatype node = File string | Dir "(string \<times> node) list"

fun lookup :: "node \<Rightarrow> string list \<Rightarrow> node option" where
  "lookup t [] = Some t"
| "lookup (File s) (n # ns) = None"
| "lookup (Dir es) (n # ns) = (case map_of es n of None \<Rightarrow> None | Some d \<Rightarrow> lookup d ns)"

text \<open>Puts a node at a path whose parent is a directory; leaves the tree alone otherwise.\<close>

fun set_node :: "string list \<Rightarrow> node \<Rightarrow> node \<Rightarrow> node" where
  "set_node [] new t = new"
| "set_node (n # ns) new (File s) = File s"
| "set_node (n # ns) new (Dir es) =
     (case map_of es n of
        None \<Rightarrow> if ns = [] then Dir (AList.update n new es) else Dir es
      | Some d \<Rightarrow> Dir (AList.update n (set_node ns new d) es))"

fun remove_node :: "string list \<Rightarrow> node \<Rightarrow> node" where
  "remove_node [] t = t"
| "remove_node (n # ns) (File s) = File s"
| "remove_node (n # ns) (Dir es) =
     (if ns = [] then Dir (AList.delete n es)
      else (case map_of es n of None \<Rightarrow> Dir es | Some d \<Rightarrow> Dir (AList.update n (remove_node ns d) es)))"

definition file_at :: "node \<Rightarrow> string list \<Rightarrow> string option" where
  "file_at t p = (case lookup t p of Some (File s) \<Rightarrow> Some s | _ \<Rightarrow> None)"

definition is_dir :: "node \<Rightarrow> string list \<Rightarrow> bool" where
  "is_dir t p = (case lookup t p of Some (Dir es) \<Rightarrow> True | _ \<Rightarrow> False)"

text \<open>The segments between slashes; empty ones do not count.\<close>

fun segments :: "string \<Rightarrow> string list" where
  "segments [] = [[]]"
| "segments (c # cs) =
     (if c = SLASH then [] # segments cs
      else (case segments cs of [] \<Rightarrow> [[c]] | x # xs \<Rightarrow> (c # x) # xs))"

definition path_comps :: "string \<Rightarrow> string list" where
  "path_comps p = filter (\<lambda>x. x \<noteq> []) (segments p)"

definition absolute :: "string \<Rightarrow> bool" where
  "absolute p \<longleftrightarrow> p \<noteq> [] \<and> hd p = SLASH"

definition trailing_slash :: "string \<Rightarrow> bool" where
  "trailing_slash p \<longleftrightarrow> p \<noteq> [] \<and> last p = SLASH"

text \<open>Path resolution: a canonical list of names, or the error.\<close>

datatype walk_result = Found "string list" | Enoent | Enotdir

fun walk :: "node \<Rightarrow> string list \<Rightarrow> string list \<Rightarrow> walk_result" where
  "walk t cur [] = Found cur"
| "walk t cur (c # cs) =
     (case lookup t cur of
        Some (Dir es) \<Rightarrow>
          if c = ''.'' then walk t cur cs
          else if c = ''..'' then walk t (butlast cur) cs
          else (case map_of es c of None \<Rightarrow> Enoent | Some d \<Rightarrow> walk t (cur @ [c]) cs)
      | _ \<Rightarrow> Enotdir)"

record real_fs =
  fs_root :: node
  fs_cwd :: "string list"

definition start_dir :: "real_fs \<Rightarrow> string \<Rightarrow> string list" where
  "start_dir fs p = (if absolute p then [] else fs_cwd fs)"

definition resolve :: "real_fs \<Rightarrow> string \<Rightarrow> walk_result" where
  "resolve fs p =
     (if p = [] then Enoent
      else case walk (fs_root fs) (start_dir fs p) (path_comps p) of
          Found q \<Rightarrow> if trailing_slash p \<and> \<not> is_dir (fs_root fs) q then Enotdir else Found q
        | e \<Rightarrow> e)"

subsection \<open>real\_filesystem\<close>

definition real_file_exists :: "real_fs \<Rightarrow> string \<Rightarrow> bool result" where
  "real_file_exists fs p = Inr (case resolve fs p of Found q \<Rightarrow> True | _ \<Rightarrow> False)"

text \<open>
  The loop over \<open>std::getline\<close>.  \<open>getline\<close> fails at the end of the file; it reads up to a line feed and
  drops it, and the stream is no longer \<open>good\<close> when the file ended first.
\<close>

function read_loop :: "string \<Rightarrow> string \<Rightarrow> string" where
  "read_loop contents s =
     (if s = [] then contents
      else let line = takeWhile (\<lambda>c. c \<noteq> LF) s; rest = dropWhile (\<lambda>c. c \<noteq> LF) s
           in if rest \<noteq> [] then read_loop (contents @ line @ [LF]) (tl rest)
              else read_loop (contents @ line) [])"
  by pat_completeness auto

lemma length_tl_dropWhile: "s \<noteq> [] \<Longrightarrow> length (tl (dropWhile P s)) < length s"
  using length_dropWhile_le [of P s] by (cases s) (simp_all add: less_Suc_eq_le diff_le_self le_diff_conv)

termination read_loop
  by (relation "measure (length \<circ> snd)") (simp_all add: length_tl_dropWhile del: length_tl dropWhile_eq_Nil_conv)

declare read_loop.simps [simp del]

definition real_read_file :: "real_fs \<Rightarrow> string \<Rightarrow> string \<Rightarrow> (string \<times> bool) result" where
  "real_read_file fs p contents =
     (case resolve fs p of
        Found q \<Rightarrow>
          (case lookup (fs_root fs) q of
             Some (File s) \<Rightarrow> Inr (read_loop contents s, True)
           | Some (Dir es) \<Rightarrow> Inr (contents, True)
           | None \<Rightarrow> Inr (contents, False))
      | _ \<Rightarrow> Inr (contents, False))"

text \<open>\<open>std::filesystem::path::parent_path\<close>\<close>

definition parent_path :: "string \<Rightarrow> string" where
  "parent_path p =
     (let d = dropWhile (\<lambda>c. c \<noteq> SLASH) (rev p) in
      if d = [] then []
      else let e = dropWhile (\<lambda>c. c = SLASH) d in if e = [] then [SLASH] else rev e)"

text \<open>\<open>std::filesystem::create_directories\<close>; \<open>None\<close> when a file is in the way.\<close>

fun create_directories :: "node \<Rightarrow> string list \<Rightarrow> string list \<Rightarrow> node option" where
  "create_directories t cur [] = (if is_dir t cur then Some t else None)"
| "create_directories t cur (c # cs) =
     (case lookup t cur of
        Some (Dir es) \<Rightarrow>
          if c = ''.'' then create_directories t cur cs
          else if c = ''..'' then create_directories t (butlast cur) cs
          else (case map_of es c of
              Some d \<Rightarrow> create_directories t (cur @ [c]) cs
            | None \<Rightarrow> create_directories (set_node (cur @ [c]) (Dir []) t) (cur @ [c]) cs)
      | _ \<Rightarrow> None)"

text \<open>An output stream on a path, truncating or creating the file; \<open>None\<close> when it does not open.\<close>

definition output_file :: "real_fs \<Rightarrow> string \<Rightarrow> string \<Rightarrow> node option" where
  "output_file fs p contents =
     (let cs = path_comps p in
      if cs = [] \<or> trailing_slash p then None
      else case walk (fs_root fs) (start_dir fs p) (butlast cs) of
          Found d \<Rightarrow>
            if \<not> is_dir (fs_root fs) d \<or> last cs = ''.'' \<or> last cs = ''..''
               \<or> is_dir (fs_root fs) (d @ [last cs]) then None
            else Some (set_node (d @ [last cs]) (File contents) (fs_root fs))
        | _ \<Rightarrow> None)"

definition real_write_file :: "real_fs \<Rightarrow> string \<Rightarrow> string \<Rightarrow> real_fs result" where
  "real_write_file fs p contents =
     (let pp = parent_path p in
      bind_res (real_file_exists fs pp) (\<lambda>parent_exists.
      bind_res
        (if pp \<noteq> [] \<and> \<not> parent_exists then
           (case create_directories (fs_root fs) (start_dir fs pp) (path_comps pp) of
              None \<Rightarrow> Inl Filesystem_Error
            | Some t \<Rightarrow> Inr (fs\<lparr>fs_root := t\<rparr>))
         else Inr fs) (\<lambda>fs'.
      Inr (case output_file fs' p contents of
             None \<Rightarrow> fs'
           | Some t \<Rightarrow> fs'\<lparr>fs_root := t\<rparr>))))"

text \<open>
  \<open>std::filesystem::remove\<close>: a file or an empty directory; \<open>false\<close> when there is none, an exception
  for anything else.
\<close>

definition real_delete_file :: "real_fs \<Rightarrow> string \<Rightarrow> (real_fs \<times> bool) result" where
  "real_delete_file fs p =
     (let cs = path_comps p in
      if cs = [] then (if p = [] then Inr (fs, False) else Inl Filesystem_Error)
      else case walk (fs_root fs) (start_dir fs p) (butlast cs) of
          Enoent \<Rightarrow> Inr (fs, False)
        | Enotdir \<Rightarrow> Inl Filesystem_Error
        | Found d \<Rightarrow>
            if \<not> is_dir (fs_root fs) d \<or> last cs = ''.'' \<or> last cs = ''..'' then Inl Filesystem_Error
            else (case lookup (fs_root fs) (d @ [last cs]) of
                None \<Rightarrow> Inr (fs, False)
              | Some (File s) \<Rightarrow>
                  if trailing_slash p then Inl Filesystem_Error
                  else Inr (fs\<lparr>fs_root := remove_node (d @ [last cs]) (fs_root fs)\<rparr>, True)
              | Some (Dir es) \<Rightarrow>
                  if es = [] then Inr (fs\<lparr>fs_root := remove_node (d @ [last cs]) (fs_root fs)\<rparr>, True)
                  else Inl Filesystem_Error))"

definition real_list_files :: "real_fs \<Rightarrow> string \<Rightarrow> string list result" where
  "real_list_files fs p =
     (case resolve fs p of
        Found q \<Rightarrow>
          (case lookup (fs_root fs) q of
             Some (Dir es) \<Rightarrow> Inr (map fst es)
           | _ \<Rightarrow> Inl Filesystem_Error)
      | _ \<Rightarrow> Inl Filesystem_Error)"

definition real_filesystem :: "real_fs filesystem_interface" where
  "real_filesystem =
     \<lparr>file_exists = real_file_exists, read_file = real_read_file, write_file = real_write_file,
      delete_file = real_delete_file, list_files = real_list_files\<rparr>"


subsection \<open>Reading is the identity\<close>

lemma read_loop_append: "read_loop contents s = contents @ s"
proof (induction contents s rule: read_loop.induct)
  case (1 contents s)
  let ?line = "takeWhile (\<lambda>c. c \<noteq> LF) s" and ?rest = "dropWhile (\<lambda>c. c \<noteq> LF) s"
  have s: "s = ?line @ ?rest" by simp
  show ?case
  proof (cases "s = []")
    case True
    then show ?thesis by (simp add: read_loop.simps)
  next
    case False
    show ?thesis
    proof (cases "?rest = []")
      case True
      with False s have "read_loop contents s = read_loop (contents @ s) []"
        by (subst read_loop.simps) (simp del: takeWhile_dropWhile_id)
      then show ?thesis by (simp add: read_loop.simps [of _ "[]"])
    next
      case rest: False
      then have "hd ?rest = LF" using hd_dropWhile by blast
      with rest have r: "?rest = LF # tl ?rest" by (metis list.collapse)
      have "read_loop contents s = read_loop (contents @ ?line @ [LF]) (tl ?rest)"
        using False rest by (subst read_loop.simps) (simp only: Let_def if_False if_True not_False_eq_True)
      also have "\<dots> = contents @ ?line @ LF # tl ?rest"
        using "1.IH"(1) [OF False refl refl rest] by simp
      also have "\<dots> = contents @ s" using s r by metis
      finally show ?thesis .
    qed
  qed
qed

subsection \<open>Trees as maps from paths\<close>

lemma lookup_append: "lookup t (p @ q) = (case lookup t p of None \<Rightarrow> None | Some d \<Rightarrow> lookup d q)"
  by (induction t p rule: lookup.induct) (auto split: option.split)

lemma file_not_dir: "file_at t p \<noteq> None \<Longrightarrow> \<not> is_dir t p"
  by (auto simp: file_at_def is_dir_def split: option.splits node.splits)

lemma lookup_cases: "lookup t p = None \<longleftrightarrow> file_at t p = None \<and> \<not> is_dir t p"
  by (auto simp: file_at_def is_dir_def split: option.splits node.splits)

lemma parent_is_dir: "lookup t (p @ n # q) \<noteq> None \<Longrightarrow> is_dir t p"
  by (cases "lookup t p"; cases "the (lookup t p)") (auto simp: lookup_append is_dir_def)

lemma is_dir_lookup: "is_dir t p \<longleftrightarrow> (\<exists>es. lookup t p = Some (Dir es))"
  by (auto simp: is_dir_def split: option.splits node.splits)

lemma lookup_set_node_same:
  "is_dir t p \<Longrightarrow> lookup (set_node (p @ [n]) new t) (p @ n # q) = lookup new q"
  by (induction p arbitrary: t; case_tac t)
    (auto simp: is_dir_def update_conv' split: option.split)

lemma lookup_set_node_other:
  "is_dir t p \<Longrightarrow> \<not> prefix (p @ [n]) q \<Longrightarrow> \<not> prefix q p \<Longrightarrow>
   lookup (set_node (p @ [n]) new t) q = lookup t q"
proof (induction p arbitrary: t q)
  case Nil
  then show ?case by (cases t; cases q) (auto simp: is_dir_def update_conv' split: option.split)
next
  case (Cons m p)
  then show ?case by (cases t; cases q) (auto simp: is_dir_def update_conv' split: option.splits)
qed

lemma is_dir_set_node_above:
  "is_dir t p \<Longrightarrow> prefix q p \<Longrightarrow> is_dir (set_node (p @ [n]) new t) q"
proof (induction p arbitrary: t q)
  case Nil
  then show ?case by (cases t) (auto simp: is_dir_def split: option.split)
next
  case (Cons m p)
  then show ?case by (cases t; cases q) (auto simp: is_dir_lookup update_conv' split: option.splits)
qed

lemma lookup_remove_node_same:
  "is_dir t p \<Longrightarrow> lookup (remove_node (p @ [n]) t) (p @ n # q) = None"
  by (induction p arbitrary: t; case_tac t)
    (auto simp: is_dir_def update_conv' delete_conv' split: option.split)

lemma lookup_remove_node_other:
  "is_dir t p \<Longrightarrow> \<not> prefix (p @ [n]) q \<Longrightarrow> \<not> prefix q p \<Longrightarrow>
   lookup (remove_node (p @ [n]) t) q = lookup t q"
proof (induction p arbitrary: t q)
  case Nil
  then show ?case by (cases t; cases q) (auto simp: is_dir_def delete_conv' split: option.split)
next
  case (Cons m p)
  then show ?case by (cases t; cases q) (auto simp: is_dir_def update_conv' split: option.splits)
qed

lemma is_dir_remove_node_above:
  "is_dir t p \<Longrightarrow> prefix q p \<Longrightarrow> is_dir (remove_node (p @ [n]) t) q"
proof (induction p arbitrary: t q)
  case Nil
  then show ?case by (cases t) (auto simp: is_dir_def split: option.split)
next
  case (Cons m p)
  then show ?case by (cases t; cases q) (auto simp: is_dir_lookup update_conv' split: option.splits)
qed

lemma is_dir_prefix: "is_dir t p \<Longrightarrow> prefix q p \<Longrightarrow> is_dir t q"
  by (metis is_dir_lookup neq_Nil_conv option.distinct(1) parent_is_dir prefixE append_Nil2)

lemma below_no_dir: "\<not> is_dir t (p @ [n]) \<Longrightarrow> lookup t (p @ n # m # r) = None"
  using parent_is_dir [of t "p @ [n]" m r] by (cases "lookup t (p @ n # m # r)") auto

text \<open>How a path relates to the entry \<open>n\<close> of a directory \<open>p\<close>.\<close>

lemma path_cases:
  obtains (above) "prefix q p" | (at) "q = p @ [n]" | (below) m r where "q = p @ n # m # r"
    | (apart) "\<not> prefix (p @ [n]) q" "\<not> prefix q p"
proof (cases "prefix (p @ [n]) q")
  case True
  then obtain r where "q = p @ n # r" by (auto simp: prefix_def)
  then show thesis using at below by (cases r) auto
qed (use above apart in blast)


lemma set_file:
  assumes "is_dir t p" and "\<not> is_dir t (p @ [n])"
  shows "file_at (set_node (p @ [n]) (File s) t) q = (if q = p @ [n] then Some s else file_at t q)"
    and "is_dir (set_node (p @ [n]) (File s) t) q \<longleftrightarrow> is_dir t q"
proof -
  have "file_at (set_node (p @ [n]) (File s) t) q = (if q = p @ [n] then Some s else file_at t q) \<and>
    (is_dir (set_node (p @ [n]) (File s) t) q \<longleftrightarrow> is_dir t q)"
  proof (cases rule: path_cases [where q = q and p = p and n = n])
    case above
    with assms(1) have "is_dir (set_node (p @ [n]) (File s) t) q" "is_dir t q" "q \<noteq> p @ [n]"
      by (auto intro: is_dir_set_node_above is_dir_prefix)
    then show ?thesis using file_not_dir by metis
  next
    case at
    then show ?thesis using assms lookup_set_node_same [OF assms(1), of n "File s" "[]"]
      by (simp add: file_at_def is_dir_def)
  next
    case (below m r)
    then show ?thesis
      using lookup_set_node_same [OF assms(1), of n "File s" "m # r"] below_no_dir [OF assms(2)]
      by (simp add: file_at_def is_dir_def)
  next
    case apart
    then show ?thesis
      using lookup_set_node_other [OF assms(1) apart, of "File s"] by (auto simp: file_at_def is_dir_def)
  qed
  then show "file_at (set_node (p @ [n]) (File s) t) q = (if q = p @ [n] then Some s else file_at t q)"
    and "is_dir (set_node (p @ [n]) (File s) t) q \<longleftrightarrow> is_dir t q" by blast+
qed

lemma set_dir:
  assumes "is_dir t p" and "lookup t (p @ [n]) = None"
  shows "file_at (set_node (p @ [n]) (Dir []) t) q = file_at t q"
    and "is_dir (set_node (p @ [n]) (Dir []) t) q \<longleftrightarrow> is_dir t q \<or> q = p @ [n]"
proof -
  have nd: "\<not> is_dir t (p @ [n])" using assms(2) by (simp add: is_dir_lookup)
  have "file_at (set_node (p @ [n]) (Dir []) t) q = file_at t q \<and>
    (is_dir (set_node (p @ [n]) (Dir []) t) q \<longleftrightarrow> is_dir t q \<or> q = p @ [n])"
  proof (cases rule: path_cases [where q = q and p = p and n = n])
    case above
    with assms(1) have "is_dir (set_node (p @ [n]) (Dir []) t) q" "is_dir t q"
      by (auto intro: is_dir_set_node_above is_dir_prefix)
    then show ?thesis using file_not_dir by (metis option.exhaust)
  next
    case at
    then show ?thesis using assms lookup_set_node_same [OF assms(1), of n "Dir []" "[]"]
      by (simp add: file_at_def is_dir_def)
  next
    case (below m r)
    then show ?thesis
      using lookup_set_node_same [OF assms(1), of n "Dir []" "m # r"] below_no_dir [OF nd]
      by (simp add: file_at_def is_dir_def)
  next
    case apart
    then show ?thesis
      using lookup_set_node_other [OF assms(1) apart, of "Dir []"] by (auto simp: file_at_def is_dir_def)
  qed
  then show "file_at (set_node (p @ [n]) (Dir []) t) q = file_at t q"
    and "is_dir (set_node (p @ [n]) (Dir []) t) q \<longleftrightarrow> is_dir t q \<or> q = p @ [n]" by blast+
qed

lemma remove_entry:
  assumes d: "is_dir t p" and leaf: "\<And>m r. lookup t (p @ n # m # r) = None"
  shows "file_at (remove_node (p @ [n]) t) q = (if q = p @ [n] then None else file_at t q)"
    and "is_dir (remove_node (p @ [n]) t) q \<longleftrightarrow> is_dir t q \<and> q \<noteq> p @ [n]"
proof -
  have "file_at (remove_node (p @ [n]) t) q = (if q = p @ [n] then None else file_at t q) \<and>
    (is_dir (remove_node (p @ [n]) t) q \<longleftrightarrow> is_dir t q \<and> q \<noteq> p @ [n])"
  proof (cases rule: path_cases [where q = q and p = p and n = n])
    case above
    with d have "is_dir (remove_node (p @ [n]) t) q" "is_dir t q" "q \<noteq> p @ [n]"
      by (auto intro: is_dir_remove_node_above is_dir_prefix)
    then show ?thesis using file_not_dir by (metis option.exhaust)
  next
    case at
    then show ?thesis using lookup_remove_node_same [OF d, of n "[]"]
      by (simp add: file_at_def is_dir_def)
  next
    case (below m r)
    then show ?thesis
      using lookup_remove_node_same [OF d, of n "m # r"] leaf by (simp add: file_at_def is_dir_def)
  next
    case apart
    then show ?thesis
      using lookup_remove_node_other [OF d apart] by (auto simp: file_at_def is_dir_def)
  qed
  then show "file_at (remove_node (p @ [n]) t) q = (if q = p @ [n] then None else file_at t q)"
    and "is_dir (remove_node (p @ [n]) t) q \<longleftrightarrow> is_dir t q \<and> q \<noteq> p @ [n]" by blast+
qed

lemma remove_file:
  assumes "file_at t (p @ [n]) \<noteq> None"
  shows "file_at (remove_node (p @ [n]) t) q = (if q = p @ [n] then None else file_at t q)"
    and "is_dir (remove_node (p @ [n]) t) q \<longleftrightarrow> is_dir t q"
proof -
  have nd: "\<not> is_dir t (p @ [n])" using assms by (rule file_not_dir)
  have d: "is_dir t p" using assms parent_is_dir [of t p n "[]"] lookup_cases [of t "p @ [n]"] by metis
  show "file_at (remove_node (p @ [n]) t) q = (if q = p @ [n] then None else file_at t q)"
    and "is_dir (remove_node (p @ [n]) t) q \<longleftrightarrow> is_dir t q"
    using remove_entry [OF d below_no_dir [OF nd]] nd by auto
qed

subsection \<open>Plain paths\<close>

text \<open>The paths \<open>./a/b/c\<close> the handlers build from names without slashes or dots.\<close>

definition plain_name :: "string \<Rightarrow> bool" where
  "plain_name n \<longleftrightarrow> n \<noteq> [] \<and> n \<noteq> ''.'' \<and> n \<noteq> ''..'' \<and> SLASH \<notin> set n"

definition plain_path :: "string list \<Rightarrow> string" where
  "plain_path ns = ''.'' @ concat (map (\<lambda>n. SLASH # n) ns)"

lemma plain_path_snoc: "plain_path (ns @ [n]) = plain_path ns @ SLASH # n"
  by (simp add: plain_path_def)

lemma segments_no_slash: "SLASH \<notin> set n \<Longrightarrow> segments n = [n]"
  by (induction n) auto

lemma segments_slash: "SLASH \<notin> set n \<Longrightarrow> segments (n @ SLASH # r) = n # segments r"
  by (induction n) auto

lemma segments_names:
  "SLASH \<notin> set n \<Longrightarrow> list_all plain_name ns \<Longrightarrow> segments (n @ concat (map (\<lambda>n. SLASH # n) ns)) = n # ns"
  by (induction ns arbitrary: n) (auto simp: segments_no_slash segments_slash plain_name_def)

lemma path_comps_plain [simp]: "list_all plain_name ns \<Longrightarrow> path_comps (plain_path ns) = ''.'' # ns"
  using segments_names [of "''.''" ns]
  by (auto simp: path_comps_def plain_path_def list_all_iff plain_name_def intro!: filter_True)

lemma plain_path_facts [simp]:
  "plain_path ns \<noteq> []" "\<not> absolute (plain_path ns)"
  by (simp_all add: plain_path_def absolute_def)

lemma last_plain_path: "list_all plain_name ns \<Longrightarrow> last (plain_path ns) \<noteq> SLASH"
proof (induction ns rule: rev_induct)
  case (snoc n ns)
  then show ?case
    by (auto simp: plain_path_snoc plain_name_def) (metis last_in_set)
qed (simp add: plain_path_def)

lemma trailing_slash_plain [simp]: "list_all plain_name ns \<Longrightarrow> \<not> trailing_slash (plain_path ns)"
  by (simp add: trailing_slash_def last_plain_path)

lemma parent_path_plain [simp]:
  assumes "list_all plain_name (ns @ [n])"
  shows "parent_path (plain_path (ns @ [n])) = plain_path ns"
proof -
  have n: "SLASH \<notin> set n" and ns: "list_all plain_name ns" using assms by (auto simp: plain_name_def)
  from n have "dropWhile (\<lambda>c. c \<noteq> SLASH) (rev (plain_path (ns @ [n]))) = SLASH # rev (plain_path ns)"
    by (auto simp: plain_path_snoc dropWhile_append)
  moreover have "dropWhile (\<lambda>c. c = SLASH) (SLASH # rev (plain_path ns)) = rev (plain_path ns)"
    using last_plain_path [OF ns] by (simp add: dropWhile_eq_self_iff hd_rev)
  ultimately show ?thesis by (simp add: parent_path_def Let_def)
qed

lemma start_dir_plain [simp]: "start_dir fs (plain_path ns) = fs_cwd fs"
  by (simp add: start_dir_def)

text \<open>Walking plain names from a directory.\<close>

lemma walk_plain:
  "is_dir t cur \<Longrightarrow> list_all plain_name ns \<Longrightarrow>
   walk t cur ns = Found q \<longleftrightarrow> q = cur @ ns \<and> lookup t (cur @ ns) \<noteq> None"
proof (induction ns arbitrary: cur)
  case Nil
  then show ?case by (auto simp: is_dir_lookup)
next
  case (Cons n ns)
  then obtain es where es: "lookup t cur = Some (Dir es)" by (auto simp: is_dir_lookup)
  have n: "n \<noteq> ''.''" "n \<noteq> ''..''" using Cons.prems by (auto simp: plain_name_def)
  show ?case
  proof (cases "map_of es n")
    case None
    with es n show ?thesis by (simp add: lookup_append)
  next
    case (Some d)
    then have d: "lookup t (cur @ [n]) = Some d" using es by (simp add: lookup_append)
    show ?thesis
    proof (cases "is_dir t (cur @ [n])")
      case True
      with Cons.IH [OF True] Cons.prems es n Some show ?thesis by simp
    next
      case False
      with d obtain s where "d = File s" by (cases d) (auto simp: is_dir_lookup)
      with d es n Some False show ?thesis
        by (cases ns) (auto simp: lookup_append)
    qed
  qed
qed

lemma resolve_plain:
  assumes "is_dir (fs_root fs) (fs_cwd fs)" and "list_all plain_name ns"
  shows "resolve fs (plain_path ns) = Found q \<longleftrightarrow>
    q = fs_cwd fs @ ns \<and> lookup (fs_root fs) (fs_cwd fs @ ns) \<noteq> None"
proof -
  have "walk (fs_root fs) (fs_cwd fs) (''.'' # ns) = walk (fs_root fs) (fs_cwd fs) ns"
    using assms(1) by (auto simp: is_dir_lookup)
  with walk_plain [OF assms] show ?thesis
    using assms(2) by (auto simp: resolve_def split: walk_result.splits)
qed

text \<open>Creating the directories of a plain path that no file blocks.\<close>

lemma create_directories_plain:
  assumes "is_dir t cur" and "list_all plain_name ns"
    and "\<And>i. 0 < i \<Longrightarrow> i \<le> length ns \<Longrightarrow> file_at t (cur @ take i ns) = None"
  shows "\<exists>t'. create_directories t cur ns = Some t' \<and> (\<forall>q. file_at t' q = file_at t q) \<and>
    (\<forall>q. is_dir t' q \<longleftrightarrow> is_dir t q \<or> (\<exists>i \<le> length ns. q = cur @ take i ns))"
  using assms
proof (induction ns arbitrary: t cur)
  case Nil
  then show ?case by auto
next
  case (Cons n ns)
  obtain es where es: "lookup t cur = Some (Dir es)" using Cons.prems(1) by (auto simp: is_dir_lookup)
  have ns: "list_all plain_name ns" and n: "n \<noteq> ''.''" "n \<noteq> ''..''"
    using Cons.prems(2) by (simp_all add: plain_name_def [of n])
  let ?t = "case map_of es n of None \<Rightarrow> set_node (cur @ [n]) (Dir []) t | Some d \<Rightarrow> t"
  have step: "create_directories t cur (n # ns) = create_directories ?t (cur @ [n]) ns"
    using es n by (simp split: option.split)
  have no_file: "file_at t (cur @ [n]) = None" using Cons.prems(3) [of 1] by simp
  have t: "file_at ?t q = file_at t q" "is_dir ?t q \<longleftrightarrow> is_dir t q \<or> q = cur @ [n]" for q
  proof -
    show "file_at ?t q = file_at t q"
      using set_dir(1) [OF Cons.prems(1), of n] es by (auto simp: lookup_append split: option.split)
    show "is_dir ?t q \<longleftrightarrow> is_dir t q \<or> q = cur @ [n]"
    proof (cases "map_of es n")
      case None
      then show ?thesis using set_dir(2) [OF Cons.prems(1), of n] es by (simp add: lookup_append)
    next
      case (Some d)
      then have "is_dir t (cur @ [n])"
        using no_file es by (auto simp: is_dir_def file_at_def lookup_append split: node.splits)
      with Some show ?thesis by auto
    qed
  qed
  have "file_at ?t ((cur @ [n]) @ take i ns) = None" if "0 < i" "i \<le> length ns" for i
    using Cons.prems(3) [of "Suc i"] that by (simp add: t)
  with Cons.IH [of ?t "cur @ [n]"] ns t obtain t' where
    t': "create_directories ?t (cur @ [n]) ns = Some t'" "\<forall>q. file_at t' q = file_at ?t q"
      "\<forall>q. is_dir t' q \<longleftrightarrow> is_dir ?t q \<or> (\<exists>i \<le> length ns. q = (cur @ [n]) @ take i ns)"
    by blast
  have "(\<exists>i \<le> length (n # ns). q = cur @ take i (n # ns)) \<longleftrightarrow>
      q = cur \<or> (\<exists>i \<le> length ns. q = (cur @ [n]) @ take i ns)" for q
  proof
    assume "\<exists>i \<le> length (n # ns). q = cur @ take i (n # ns)"
    then obtain i where "i \<le> length (n # ns)" "q = cur @ take i (n # ns)" by blast
    then show "q = cur \<or> (\<exists>i \<le> length ns. q = (cur @ [n]) @ take i ns)" by (cases i) auto
  next
    assume "q = cur \<or> (\<exists>i \<le> length ns. q = (cur @ [n]) @ take i ns)"
    then show "\<exists>i \<le> length (n # ns). q = cur @ take i (n # ns)"
      by (metis (no_types, opaque_lifting) Suc_le_mono append.assoc append_Cons append_Nil append_Nil2
          length_Cons take0 take_Suc_Cons zero_le)
  qed
  moreover have "q = cur @ [n] \<Longrightarrow> \<exists>i \<le> length ns. q = (cur @ [n]) @ take i ns" for q
    by (rule exI [of _ 0]) simp
  ultimately show ?case using t' t step Cons.prems(1) by metis
qed

subsection \<open>The contract of the interface\<close>

text \<open>
  What a client may rely on for plain paths: the file system is a map from paths to contents
  together with a set of directories closed under parents.  Reading appends the content;
  writing makes the file hold exactly the content and creates the directories above it;
  deleting removes the file and nothing else; listing a directory gives the names in it.
\<close>

locale filesystem_contract =
  fixes F :: "'fs filesystem_interface"
    and ok :: "'fs \<Rightarrow> bool"
    and content :: "'fs \<Rightarrow> string list \<Rightarrow> string option"
    and dir :: "'fs \<Rightarrow> string list \<Rightarrow> bool"
  assumes exists_law: "ok fs \<Longrightarrow> list_all plain_name ns \<Longrightarrow>
      file_exists F fs (plain_path ns) = Inr (content fs ns \<noteq> None \<or> dir fs ns)"
    and read_law: "ok fs \<Longrightarrow> list_all plain_name ns \<Longrightarrow> content fs ns = Some s \<Longrightarrow>
      read_file F fs (plain_path ns) acc = Inr (acc @ s, True)"
    and write_law: "ok fs \<Longrightarrow> list_all plain_name ns \<Longrightarrow> ns \<noteq> [] \<Longrightarrow> \<not> dir fs ns \<Longrightarrow>
      (\<And>i. i < length ns \<Longrightarrow> content fs (take i ns) = None) \<Longrightarrow>
      \<exists>fs'. write_file F fs (plain_path ns) s = Inr fs' \<and> ok fs' \<and>
        content fs' = (content fs)(ns \<mapsto> s) \<and> (\<forall>q. dir fs' q \<longleftrightarrow> dir fs q \<or> strict_prefix q ns)"
    and delete_law: "ok fs \<Longrightarrow> list_all plain_name ns \<Longrightarrow> content fs ns \<noteq> None \<Longrightarrow>
      \<exists>fs'. delete_file F fs (plain_path ns) = Inr (fs', True) \<and> ok fs' \<and>
        content fs' = (content fs)(ns := None) \<and> dir fs' = dir fs"
    and list_law: "ok fs \<Longrightarrow> list_all plain_name ns \<Longrightarrow> dir fs ns \<Longrightarrow>
      \<exists>names. list_files F fs (plain_path ns) = Inr names \<and>
        (\<forall>n. n \<in> set names \<longleftrightarrow> content fs (ns @ [n]) \<noteq> None \<or> dir fs (ns @ [n]))"
    and list_error: "ok fs \<Longrightarrow> list_all plain_name ns \<Longrightarrow> \<not> dir fs ns \<Longrightarrow>
      list_files F fs (plain_path ns) = Inl Filesystem_Error"
    and file_no_dir: "ok fs \<Longrightarrow> content fs ns \<noteq> None \<Longrightarrow> \<not> dir fs ns"
    and parent_law: "ok fs \<Longrightarrow> content fs (ns @ [n]) \<noteq> None \<or> dir fs (ns @ [n]) \<Longrightarrow> dir fs ns"
    and root_law: "ok fs \<Longrightarrow> dir fs []"
begin

text \<open>Consequences every client shares.\<close>

lemma dir_prefix: "ok fs \<Longrightarrow> content fs (ns @ ms) \<noteq> None \<or> dir fs (ns @ ms) \<Longrightarrow> ms = [] \<or> dir fs ns"
proof (induction ms rule: rev_induct)
  case (snoc m ms)
  then have "dir fs (ns @ ms)" using parent_law [of fs "ns @ ms" m] by simp
  with snoc show ?case by (cases ms) auto
qed simp

text \<open>A path can be written when it is no directory and its prefixes are no files.\<close>

definition writable :: "'fs \<Rightarrow> string list \<Rightarrow> bool" where
  "writable fs ns \<longleftrightarrow> ns \<noteq> [] \<and> \<not> dir fs ns \<and> (\<forall>i < length ns. content fs (take i ns) = None)"

lemma dir_child_writable:
  assumes "ok fs" and "dir fs ns" and "\<not> dir fs (ns @ [n])"
  shows "writable fs (ns @ [n])"
proof -
  have "content fs (take i (ns @ [n])) = None" if "i < length (ns @ [n])" for i
  proof -
    have "take i (ns @ [n]) = take i ns" using that by simp
    moreover have "drop i ns = [] \<or> dir fs (take i ns)"
      using dir_prefix [OF assms(1), of "take i ns" "drop i ns"] assms(2) by simp
    then have "dir fs (take i ns)" using assms(2) that by auto
    ultimately show ?thesis using file_no_dir [OF assms(1)] by (metis option.exhaust)
  qed
  with assms show ?thesis by (simp add: writable_def)
qed

lemma write_read:
  assumes "ok fs" and "list_all plain_name ns" and "writable fs ns"
    and "write_file F fs (plain_path ns) s = Inr fs'"
  shows "ok fs' \<and> read_file F fs' (plain_path ns) acc = Inr (acc @ s, True) \<and>
    content fs' = (content fs)(ns \<mapsto> s)"
  using write_law [OF assms(1,2), of s] read_law [of fs' ns s acc] assms by (auto simp: writable_def)

lemma write_total:
  assumes "ok fs" and "list_all plain_name ns" and "writable fs ns"
  shows "\<exists>fs'. write_file F fs (plain_path ns) s = Inr fs'"
  using write_law [OF assms(1,2), of s] assms(3) by (auto simp: writable_def)

end

definition real_ok :: "real_fs \<Rightarrow> bool" where
  "real_ok fs \<longleftrightarrow> is_dir (fs_root fs) (fs_cwd fs)"

definition real_content :: "real_fs \<Rightarrow> string list \<Rightarrow> string option" where
  "real_content fs ns = file_at (fs_root fs) (fs_cwd fs @ ns)"

definition real_dir :: "real_fs \<Rightarrow> string list \<Rightarrow> bool" where
  "real_dir fs ns \<longleftrightarrow> is_dir (fs_root fs) (fs_cwd fs @ ns)"

lemmas real_defs = real_ok_def real_content_def real_dir_def

lemma resolve_plain_Found:
  "real_ok fs \<Longrightarrow> list_all plain_name ns \<Longrightarrow> lookup (fs_root fs) (fs_cwd fs @ ns) = Some d \<Longrightarrow>
   resolve fs (plain_path ns) = Found (fs_cwd fs @ ns)"
  using resolve_plain [of fs ns "fs_cwd fs @ ns"] by (simp add: real_ok_def)

lemma resolve_plain_missing:
  assumes "real_ok fs" "list_all plain_name ns" "lookup (fs_root fs) (fs_cwd fs @ ns) = None"
  shows "resolve fs (plain_path ns) \<in> {Enoent, Enotdir}"
proof (cases "resolve fs (plain_path ns)")
  case (Found q)
  with resolve_plain [of fs ns q] assms show ?thesis by (simp add: real_ok_def)
qed simp_all

lemma real_exists_law:
  assumes "real_ok fs" "list_all plain_name ns"
  shows "real_file_exists fs (plain_path ns) = Inr (real_content fs ns \<noteq> None \<or> real_dir fs ns)"
proof (cases "lookup (fs_root fs) (fs_cwd fs @ ns)")
  case None
  with resolve_plain_missing [OF assms None] show ?thesis
    by (auto simp: real_file_exists_def real_defs lookup_cases)
next
  case (Some d)
  then have "real_content fs ns \<noteq> None \<or> real_dir fs ns"
    using lookup_cases [of "fs_root fs" "fs_cwd fs @ ns"] by (auto simp: real_defs)
  with resolve_plain_Found [OF assms Some] show ?thesis by (simp add: real_file_exists_def)
qed

lemma real_read_law:
  assumes "real_ok fs" "list_all plain_name ns" "real_content fs ns = Some s"
  shows "real_read_file fs (plain_path ns) acc = Inr (acc @ s, True)"
proof -
  have "lookup (fs_root fs) (fs_cwd fs @ ns) = Some (File s)"
    using assms(3) by (auto simp: real_defs file_at_def split: option.splits node.splits)
  moreover from this have "resolve fs (plain_path ns) = Found (fs_cwd fs @ ns)"
    using assms(1,2) by (intro resolve_plain_Found)
  ultimately show ?thesis by (simp add: real_read_file_def read_loop_append)
qed

lemma real_list_law:
  assumes "real_ok fs" "list_all plain_name ns" "real_dir fs ns"
  shows "\<exists>names. real_list_files fs (plain_path ns) = Inr names \<and>
    (\<forall>n. n \<in> set names \<longleftrightarrow> real_content fs (ns @ [n]) \<noteq> None \<or> real_dir fs (ns @ [n]))"
proof -
  obtain es where es: "lookup (fs_root fs) (fs_cwd fs @ ns) = Some (Dir es)"
    using assms(3) by (auto simp: real_defs is_dir_lookup)
  then have "resolve fs (plain_path ns) = Found (fs_cwd fs @ ns)"
    using assms(1,2) by (intro resolve_plain_Found)
  with es have "real_list_files fs (plain_path ns) = Inr (map fst es)"
    by (simp add: real_list_files_def)
  moreover have "n \<in> set (map fst es) \<longleftrightarrow> real_content fs (ns @ [n]) \<noteq> None \<or> real_dir fs (ns @ [n])" for n
  proof -
    have "lookup (fs_root fs) (fs_cwd fs @ ns @ [n]) = map_of es n"
      using lookup_append [of "fs_root fs" "fs_cwd fs @ ns" "[n]"] es by (simp split: option.split)
    then show ?thesis
      using lookup_cases [of "fs_root fs" "fs_cwd fs @ ns @ [n]"] map_of_eq_None_iff [of es n]
      by (auto simp: real_defs)
  qed
  ultimately show ?thesis by blast
qed

lemma real_list_error:
  assumes "real_ok fs" "list_all plain_name ns" "\<not> real_dir fs ns"
  shows "real_list_files fs (plain_path ns) = Inl Filesystem_Error"
proof (cases "lookup (fs_root fs) (fs_cwd fs @ ns)")
  case None
  with resolve_plain_missing [OF assms(1,2) None] show ?thesis by (auto simp: real_list_files_def)
next
  case (Some d)
  then obtain s where "d = File s" using assms(3) by (cases d) (auto simp: real_defs is_dir_lookup)
  with Some resolve_plain_Found [OF assms(1,2) Some] show ?thesis by (simp add: real_list_files_def)
qed

lemma butlast_last_comps:
  "butlast (''.'' # ms @ [n]) = ''.'' # ms" "last (''.'' # ms @ [n]) = n"
  by (simp_all add: butlast_append)

lemma walk_dot: "is_dir t cur \<Longrightarrow> walk t cur (''.'' # cs) = walk t cur cs"
  by (auto simp: is_dir_lookup)

lemma walk_plain_dir:
  assumes "is_dir t cur" "list_all plain_name ns" "is_dir t (cur @ ns)"
  shows "walk t cur (''.'' # ns) = Found (cur @ ns)"
proof -
  have "lookup t (cur @ ns) \<noteq> None" using assms(3) by (auto simp: is_dir_lookup)
  with walk_plain [OF assms(1,2)] walk_dot [OF assms(1)] show ?thesis by simp
qed

lemma create_directories_dot: "is_dir t cur \<Longrightarrow> create_directories t cur (''.'' # cs) = create_directories t cur cs"
  by (auto simp: is_dir_lookup)

lemma output_file_plain:
  assumes "is_dir (fs_root fs) (fs_cwd fs @ ms)" and "is_dir (fs_root fs) (fs_cwd fs)"
    and "list_all plain_name (ms @ [n])" and "\<not> is_dir (fs_root fs) (fs_cwd fs @ ms @ [n])"
  shows "output_file fs (plain_path (ms @ [n])) s =
    Some (set_node (fs_cwd fs @ ms @ [n]) (File s) (fs_root fs))"
proof -
  have ms: "list_all plain_name ms" and n: "n \<noteq> ''.''" "n \<noteq> ''..''"
    using assms(3) by (simp_all add: plain_name_def [of n])
  have "walk (fs_root fs) (fs_cwd fs) (''.'' # ms) = Found (fs_cwd fs @ ms)"
    using walk_plain_dir [OF assms(2) ms assms(1)] .
  with assms n show ?thesis
    by (simp add: output_file_def Let_def butlast_last_comps butlast_append del: walk.simps)
qed

text \<open>The directories above the file exist or are created, and then the file is written.\<close>

lemma real_write_plain:
  assumes ok: "real_ok fs" and plain: "list_all plain_name (ms @ [n])"
    and no_dir: "\<not> real_dir fs (ms @ [n])"
    and no_file: "\<And>i. i \<le> length ms \<Longrightarrow> real_content fs (take i ms) = None"
  shows "\<exists>t. real_write_file fs (plain_path (ms @ [n])) s =
      Inr (fs\<lparr>fs_root := set_node (fs_cwd fs @ ms @ [n]) (File s) t\<rparr>) \<and>
    (\<forall>q. file_at t q = file_at (fs_root fs) q) \<and>
    (\<forall>q. is_dir t q \<longleftrightarrow> is_dir (fs_root fs) q \<or> (\<exists>i \<le> length ms. q = fs_cwd fs @ take i ms))"
proof -
  have ms: "list_all plain_name ms" using plain by simp
  have cwd: "is_dir (fs_root fs) (fs_cwd fs)" using ok by (simp add: real_ok_def)
  obtain t where create: "create_directories (fs_root fs) (fs_cwd fs) ms = Some t"
    and t: "\<forall>q. file_at t q = file_at (fs_root fs) q"
      "\<forall>q. is_dir t q \<longleftrightarrow> is_dir (fs_root fs) q \<or> (\<exists>i \<le> length ms. q = fs_cwd fs @ take i ms)"
    using create_directories_plain [OF cwd ms] no_file by (auto simp: real_content_def)
  have pp: "parent_path (plain_path (ms @ [n])) = plain_path ms" using plain by (rule parent_path_plain)
  have ex: "real_file_exists fs (plain_path ms) = Inr (real_dir fs ms)"
    using real_exists_law [OF ok ms] no_file [of "length ms"] by simp
  show ?thesis
  proof (cases "real_dir fs ms")
    case True
    then have d: "is_dir (fs_root fs) (fs_cwd fs @ ms)" by (simp add: real_dir_def)
    then have "is_dir (fs_root fs) (fs_cwd fs @ take i ms)" if "i \<le> length ms" for i
      by (rule is_dir_prefix) (metis append_take_drop_id prefixI same_prefix_prefix)
    moreover have "real_write_file fs (plain_path (ms @ [n])) s =
      Inr (fs\<lparr>fs_root := set_node (fs_cwd fs @ ms @ [n]) (File s) (fs_root fs)\<rparr>)"
      using output_file_plain [OF d cwd plain] no_dir
      by (simp add: real_write_file_def Let_def pp ex True d) (simp add: real_dir_def)
    ultimately show ?thesis by (intro exI [of _ "fs_root fs"]) auto
  next
    case False
    let ?fs = "fs\<lparr>fs_root := t\<rparr>"
    have d: "is_dir t (fs_cwd fs @ ms)" using t(2) by (auto intro: exI [of _ "length ms"])
    have c: "is_dir t (fs_cwd fs)" using t(2) cwd by simp
    have "fs_cwd fs @ ms @ [n] \<noteq> fs_cwd fs @ take i ms" for i
    proof
      assume "fs_cwd fs @ ms @ [n] = fs_cwd fs @ take i ms"
      then have "length (ms @ [n]) = length (take i ms)" by simp
      then show False by simp
    qed
    then have nd: "\<not> is_dir t (fs_cwd fs @ ms @ [n])" using t(2) no_dir by (simp add: real_dir_def)
    have "output_file ?fs (plain_path (ms @ [n])) s = Some (set_node (fs_cwd fs @ ms @ [n]) (File s) t)"
      using output_file_plain [of ?fs ms n s] d c nd plain by simp
    then have "real_write_file fs (plain_path (ms @ [n])) s =
      Inr (fs\<lparr>fs_root := set_node (fs_cwd fs @ ms @ [n]) (File s) t\<rparr>)"
      using create
      by (simp add: real_write_file_def Let_def pp ex False path_comps_plain [OF ms]
          create_directories_dot [OF cwd] del: create_directories.simps)
    with t show ?thesis by blast
  qed
qed

lemma strict_prefix_take: "(\<exists>i \<le> length ms. q = take i ms) \<longleftrightarrow> strict_prefix q (ms @ [n])"
proof
  assume "strict_prefix q (ms @ [n])"
  then have "prefix q ms" by (auto simp: strict_prefix_def)
  then show "\<exists>i \<le> length ms. q = take i ms"
    by (metis append_eq_conv_conj prefix_length_le prefix_def)
next
  assume "\<exists>i \<le> length ms. q = take i ms"
  then have "prefix q ms" by (auto simp: take_is_prefix)
  then show "strict_prefix q (ms @ [n])" by (simp add: prefix_def strict_prefix_def) (metis append_assoc append_self_conv append_is_Nil_conv not_Cons_self2)
qed

lemma real_write_law:
  assumes ok: "real_ok fs" and plain: "list_all plain_name ns" and ne: "ns \<noteq> []"
    and no_dir: "\<not> real_dir fs ns"
    and no_file: "\<And>i. i < length ns \<Longrightarrow> real_content fs (take i ns) = None"
  shows "\<exists>fs'. real_write_file fs (plain_path ns) s = Inr fs' \<and> real_ok fs' \<and>
    real_content fs' = (real_content fs)(ns \<mapsto> s) \<and> (\<forall>q. real_dir fs' q \<longleftrightarrow> real_dir fs q \<or> strict_prefix q ns)"
proof -
  obtain ms n where ns: "ns = ms @ [n]" using ne by (cases ns rule: rev_cases) auto
  have "real_content fs (take i ms) = None" if "i \<le> length ms" for i
    using no_file [of i] that by (simp add: ns)
  with real_write_plain [OF ok, of ms n s] plain no_dir ns obtain t where
    w: "real_write_file fs (plain_path ns) s = Inr (fs\<lparr>fs_root := set_node (fs_cwd fs @ ns) (File s) t\<rparr>)"
    and f: "\<And>q. file_at t q = file_at (fs_root fs) q"
    and d: "\<And>q. is_dir t q \<longleftrightarrow> is_dir (fs_root fs) q \<or> (\<exists>i \<le> length ms. q = fs_cwd fs @ take i ms)"
    by auto
  let ?fs = "fs\<lparr>fs_root := set_node (fs_cwd fs @ ns) (File s) t\<rparr>"
  have par: "is_dir t (fs_cwd fs @ ms)" by (auto simp: d intro: exI [of _ "length ms"])
  have sp: "(\<exists>i \<le> length ms. fs_cwd fs @ q = fs_cwd fs @ take i ms) \<longleftrightarrow> strict_prefix q ns" for q
    using strict_prefix_take [of ms q n] by (simp add: ns)
  have nd: "\<not> is_dir t ((fs_cwd fs @ ms) @ [n])"
    using no_dir sp [of ns] by (simp add: d real_dir_def ns)
  have dirs: "real_dir ?fs q \<longleftrightarrow> real_dir fs q \<or> strict_prefix q ns" for q
    using set_file(2) [OF par nd, of s "fs_cwd fs @ q"] sp [of q] by (simp add: real_dir_def d ns)
  moreover have "real_content ?fs = (real_content fs)(ns \<mapsto> s)"
    using set_file(1) [OF par nd, of s] by (auto simp: real_content_def f ns fun_eq_iff)
  moreover have "real_ok ?fs" using dirs [of "[]"] ok by (simp add: real_ok_def real_dir_def)
  ultimately show ?thesis using w by blast
qed

lemma real_delete_law:
  assumes ok: "real_ok fs" and plain: "list_all plain_name ns" and is_file: "real_content fs ns \<noteq> None"
  shows "\<exists>fs'. real_delete_file fs (plain_path ns) = Inr (fs', True) \<and> real_ok fs' \<and>
    real_content fs' = (real_content fs)(ns := None) \<and> real_dir fs' = real_dir fs"
proof -
  have cwd: "is_dir (fs_root fs) (fs_cwd fs)" using ok by (simp add: real_ok_def)
  have "ns \<noteq> []"
  proof
    assume "ns = []"
    with is_file have "file_at (fs_root fs) (fs_cwd fs) \<noteq> None" by (simp add: real_content_def)
    with cwd show False using file_not_dir by blast
  qed
  then obtain ms n where ns: "ns = ms @ [n]" by (cases ns rule: rev_cases) auto
  let ?p = "(fs_cwd fs @ ms) @ [n]"
  have fp: "file_at (fs_root fs) ?p \<noteq> None" using is_file by (simp add: real_content_def ns)
  then obtain s where s: "lookup (fs_root fs) ?p = Some (File s)"
    by (auto simp: file_at_def split: option.splits node.splits)
  have par: "is_dir (fs_root fs) (fs_cwd fs @ ms)"
    using parent_is_dir [of "fs_root fs" "fs_cwd fs @ ms" n "[]"] s by simp
  have ms: "list_all plain_name ms" and n: "n \<noteq> ''.''" "n \<noteq> ''..''"
    using plain by (simp_all add: ns plain_name_def [of n])
  have "walk (fs_root fs) (fs_cwd fs) (''.'' # ms) = Found (fs_cwd fs @ ms)"
    using walk_plain_dir [OF cwd ms par] .
  then have "real_delete_file fs (plain_path ns) = Inr (fs\<lparr>fs_root := remove_node ?p (fs_root fs)\<rparr>, True)"
    using plain n par s
    by (simp add: real_delete_file_def Let_def ns butlast_append del: walk.simps)
  moreover have "real_dir (fs\<lparr>fs_root := remove_node ?p (fs_root fs)\<rparr>) = real_dir fs"
    using remove_file(2) [OF fp] by (simp add: real_dir_def fun_eq_iff)
  moreover have "real_content (fs\<lparr>fs_root := remove_node ?p (fs_root fs)\<rparr>) = (real_content fs)(ns := None)"
    using remove_file(1) [OF fp] by (auto simp: real_content_def fun_eq_iff ns)
  moreover have "real_ok (fs\<lparr>fs_root := remove_node ?p (fs_root fs)\<rparr>)"
    using remove_file(2) [OF fp] cwd by (simp add: real_ok_def)
  ultimately show ?thesis by blast
qed

lemma real_parent_law:
  "real_content fs (ns @ [n]) \<noteq> None \<or> real_dir fs (ns @ [n]) \<Longrightarrow> real_dir fs ns"
  using parent_is_dir [of "fs_root fs" "fs_cwd fs @ ns" n "[]"] lookup_cases [of "fs_root fs" "fs_cwd fs @ ns @ [n]"]
  by (auto simp: real_defs)

lemma real_file_no_dir: "real_content fs ns \<noteq> None \<Longrightarrow> \<not> real_dir fs ns"
  unfolding real_defs by (rule file_not_dir)

lemma real_root: "real_ok fs \<Longrightarrow> real_dir fs []"
  by (simp add: real_defs)

lemmas real_laws = real_exists_law real_read_law real_write_law real_delete_law real_list_law
  real_list_error real_parent_law real_file_no_dir real_root

lemma real_filesystem_simps [simp]:
  "file_exists real_filesystem = real_file_exists" "read_file real_filesystem = real_read_file"
  "write_file real_filesystem = real_write_file" "delete_file real_filesystem = real_delete_file"
  "list_files real_filesystem = real_list_files"
  by (simp_all add: real_filesystem_def)

interpretation rf: filesystem_contract real_filesystem real_ok real_content real_dir
  by (unfold_locales; (simp only: real_filesystem_simps)?; (rule real_laws; assumption))

subsection \<open>What the real file system does\<close>

text \<open>A tree with a data directory that holds one entity, and the server's directory in it.\<close>

definition sample_fs :: real_fs where
  "sample_fs = \<lparr>fs_root = Dir [(''srv'', Dir [(''data'', Dir [(''Shoes'', Dir [(''1'', File ''{}'')])])])],
     fs_cwd = [''srv'']\<rparr>"

text \<open>
  C27: Writing creates what is needed and is read back.  On a plain path no file or directory
  blocks, \<open>write_file\<close> creates the missing directories and the file, \<open>read_file\<close> then appends
  exactly the bytes written to its buffer, and every other file keeps its content.
\<close>

theorem real_write_file_read_back:
  assumes "real_ok fs" and "list_all plain_name ns" and "ns \<noteq> []" and "\<not> real_dir fs ns"
    and "\<forall>i < length ns. real_content fs (take i ns) = None"
  shows "\<exists>fs'. write_file real_filesystem fs (plain_path ns) s = Inr fs' \<and>
    read_file real_filesystem fs' (plain_path ns) acc = Inr (acc @ s, True) \<and>
    (\<forall>q. q \<noteq> ns \<longrightarrow> real_content fs' q = real_content fs q) \<and>
    (\<forall>q. real_dir fs' q \<longleftrightarrow> real_dir fs q \<or> strict_prefix q ns)"
proof -
  obtain fs' where "write_file real_filesystem fs (plain_path ns) s = Inr fs'" "real_ok fs'"
    "real_content fs' = (real_content fs)(ns \<mapsto> s)"
    "\<forall>q. real_dir fs' q \<longleftrightarrow> real_dir fs q \<or> strict_prefix q ns"
    using rf.write_law [of fs ns s] assms by auto
  moreover from this have "read_file real_filesystem fs' (plain_path ns) acc = Inr (acc @ s, True)"
    using rf.read_law [of fs' ns s acc] assms(2) by simp
  ultimately show ?thesis by auto
qed

theorem real_write_file_read_back_witness:
  "\<exists>fs'. write_file real_filesystem sample_fs (plain_path [''data'', ''Hats'', ''1'']) ''{a}'' = Inr fs' \<and>
    read_file real_filesystem fs' (plain_path [''data'', ''Hats'', ''1'']) ''x'' = Inr (''x'' @ ''{a}'', True) \<and>
    (\<forall>q. q \<noteq> [''data'', ''Hats'', ''1''] \<longrightarrow> real_content fs' q = real_content sample_fs q) \<and>
    (\<forall>q. real_dir fs' q \<longleftrightarrow> real_dir sample_fs q \<or> strict_prefix q [''data'', ''Hats'', ''1''])"
proof (rule real_write_file_read_back)
  show "\<forall>i < length [''data'', ''Hats'', ''1'']. real_content sample_fs (take i [''data'', ''Hats'', ''1'']) = None"
    by (auto simp: less_Suc_eq sample_fs_def real_content_def file_at_def)
qed code_simp+

text \<open>
  C34: The read loop is the identity.  Whatever path leads to a file, with or without a final
  line feed, \<open>read_file\<close> appends its exact content, although it reads it line by line.
\<close>

theorem real_read_file_exact:
  assumes "resolve fs p = Found q" and "file_at (fs_root fs) q = Some s"
  shows "read_file real_filesystem fs p contents = Inr (contents @ s, True)"
proof -
  have "lookup (fs_root fs) q = Some (File s)"
    using assms(2) by (auto simp: file_at_def split: option.splits node.splits)
  with assms(1) show ?thesis by (simp add: real_read_file_def read_loop_append)
qed

theorem real_read_file_exact_witness:
  "read_file real_filesystem sample_fs ''data/../data//Shoes/1'' ''x'' = Inr (''x'' @ ''{}'', True)"
  by (rule real_read_file_exact [of _ _ "[''srv'', ''data'', ''Shoes'', ''1'']"]; code_simp)

text \<open>
  A write that cannot be done is not reported.  When the path is a directory the stream
  does not open and \<open>write_file\<close> returns with the file system as it was; the interface has no
  way to tell its caller.
\<close>

lemma real_write_file_silent:
  assumes "real_ok fs" and "list_all plain_name ns" and "ns \<noteq> []" and "real_dir fs ns"
  shows "write_file real_filesystem fs (plain_path ns) s = Inr fs"
proof -
  obtain ms n where ns: "ns = ms @ [n]" using assms(3) by (cases ns rule: rev_cases) auto
  have cwd: "is_dir (fs_root fs) (fs_cwd fs)" using assms(1) by (simp add: real_ok_def)
  have ms: "list_all plain_name ms" and n: "n \<noteq> ''.''" "n \<noteq> ''..''"
    using assms(2) by (simp_all add: ns plain_name_def [of n])
  have par: "real_dir fs ms" using assms(4) real_parent_law [of fs ms n] by (simp add: ns)
  have "walk (fs_root fs) (fs_cwd fs) (''.'' # ms) = Found (fs_cwd fs @ ms)"
    using par by (intro walk_plain_dir [OF cwd ms]) (simp add: real_dir_def)
  then have "output_file fs (plain_path (ms @ [n])) s = None"
    using assms(2,4) by (simp add: output_file_def Let_def ns real_dir_def butlast_append del: walk.simps)
  moreover have "parent_path (plain_path (ms @ [n])) = plain_path ms"
    using assms(2) ns by (intro parent_path_plain) simp
  moreover have "real_file_exists fs (plain_path ms) = Inr True"
    using real_exists_law [OF assms(1) ms] par by simp
  ultimately show ?thesis by (simp add: real_write_file_def Let_def ns)
qed

lemma walk_Enotdir:
  "walk t cur ns = Enotdir \<Longrightarrow> is_dir t cur \<Longrightarrow> list_all plain_name ns \<Longrightarrow>
   \<exists>i < length ns. file_at t (cur @ take i ns) \<noteq> None"
proof (induction ns arbitrary: cur)
  case (Cons n ns)
  then obtain es d where es: "lookup t cur = Some (Dir es)" and d: "map_of es n = Some d"
    and w: "walk t (cur @ [n]) ns = Enotdir"
    by (auto simp: is_dir_lookup plain_name_def [of n] split: option.splits)
  then have d': "lookup t (cur @ [n]) = Some d" by (simp add: lookup_append)
  show ?case
  proof (cases d)
    case (File s)
    then have "ns \<noteq> []" using w by auto
    then have "1 < length (n # ns) \<and> file_at t (cur @ take 1 (n # ns)) \<noteq> None"
      using d' File by (simp add: file_at_def)
    then show ?thesis by blast
  next
    case (Dir es')
    then have "is_dir t (cur @ [n])" using d' by (simp add: is_dir_lookup)
    with Cons.IH [OF w] Cons.prems(3) obtain i where "i < length ns" "file_at t ((cur @ [n]) @ take i ns) \<noteq> None"
      by auto
    then have "Suc i < length (n # ns) \<and> file_at t (cur @ take (Suc i) (n # ns)) \<noteq> None" by simp
    then show ?thesis by blast
  qed
qed simp

text \<open>Deletion on a plain path, by what the path leads to.\<close>

lemma real_delete_plain:
  assumes "real_ok fs" and "list_all plain_name (ms @ [n])"
  shows "delete_file real_filesystem fs (plain_path (ms @ [n])) =
     (case walk (fs_root fs) (fs_cwd fs) ms of
        Enoent \<Rightarrow> Inr (fs, False)
      | Enotdir \<Rightarrow> Inl Filesystem_Error
      | Found d \<Rightarrow>
          if \<not> is_dir (fs_root fs) d then Inl Filesystem_Error
          else (case lookup (fs_root fs) (d @ [n]) of
              None \<Rightarrow> Inr (fs, False)
            | Some (File s) \<Rightarrow> Inr (fs\<lparr>fs_root := remove_node (d @ [n]) (fs_root fs)\<rparr>, True)
            | Some (Dir es) \<Rightarrow>
                if es = [] then Inr (fs\<lparr>fs_root := remove_node (d @ [n]) (fs_root fs)\<rparr>, True)
                else Inl Filesystem_Error))"
proof -
  have cwd: "is_dir (fs_root fs) (fs_cwd fs)" using assms(1) by (simp add: real_ok_def)
  have n: "n \<noteq> ''.''" "n \<noteq> ''..''" using assms(2) by (simp_all add: plain_name_def [of n])
  show ?thesis
    using assms(2) n walk_dot [OF cwd, of ms] trailing_slash_plain [of "ms @ [n]"] butlast_last_comps(2) [of ms n]
    by (simp add: real_delete_file_def Let_def butlast_append del: walk.simps split: walk_result.split option.split node.split)
qed

text \<open>What the deletion finds in the directory the path leads to.\<close>

lemma real_delete_entry:
  assumes ok: "real_ok fs" and names: "list_all plain_name (ms @ [n])"
    and found: "walk (fs_root fs) (fs_cwd fs) ms = Found (fs_cwd fs @ ms)" and dir: "is_dir (fs_root fs) (fs_cwd fs @ ms)"
  shows "case delete_file real_filesystem fs (plain_path (ms @ [n])) of
      Inl e \<Rightarrow> e = Filesystem_Error \<and> (\<exists>m. real_content fs (ms @ [n, m]) \<noteq> None \<or> real_dir fs (ms @ [n, m]))
    | Inr (fs', removed) \<Rightarrow>
        if removed then (real_content fs (ms @ [n]) \<noteq> None \<or> real_dir fs (ms @ [n])) \<and>
          real_content fs' = (real_content fs)(ms @ [n] := None) \<and>
          (\<forall>q. real_dir fs' q \<longleftrightarrow> real_dir fs q \<and> q \<noteq> ms @ [n])
        else fs' = fs \<and> real_content fs (ms @ [n]) = None \<and> \<not> real_dir fs (ms @ [n])"
proof -
  let ?d = "fs_cwd fs @ ms" and ?p = "(fs_cwd fs @ ms) @ [n]" and ?t = "fs_root fs"
  note del = real_delete_plain [OF ok names]
  show ?thesis
  proof (cases "lookup ?t ?p" rule: option.exhaust)
    case None
    then have "file_at ?t ?p = None" "\<not> is_dir ?t ?p" using lookup_cases by blast+
    with None found dir show ?thesis unfolding del by (simp add: real_defs)
  next
    case (Some e)
    show ?thesis
    proof (cases e)
      case (File s)
      with Some have "file_at ?t ?p \<noteq> None" by (simp add: file_at_def)
      from remove_file [OF this] file_not_dir [OF this] Some File found dir this show ?thesis
        unfolding del by (auto simp: real_defs fun_eq_iff)
    next
      case (Dir es)
      show ?thesis
      proof (cases es)
        case Nil
        then have "lookup ?t (?d @ n # m # r) = None" for m r
          using Some Dir lookup_append [of ?t ?p "m # r"] by simp
        from remove_entry [OF dir this] Nil Some Dir found dir show ?thesis
          unfolding del by (auto simp: real_defs fun_eq_iff is_dir_lookup)
      next
        case (Cons x xs)
        then have "lookup ?t (?p @ [fst x]) \<noteq> None"
          using Some Dir lookup_append [of ?t ?p "[fst x]"] by (cases x) simp
        then have "real_content fs (ms @ [n, fst x]) \<noteq> None \<or> real_dir fs (ms @ [n, fst x])"
          using lookup_cases [of ?t "?p @ [fst x]"] by (auto simp: real_defs)
        with Cons Some Dir found dir show ?thesis unfolding del by auto
      qed
    qed
  qed
qed

text \<open>
  The ends of a deletion on a plain path: a file or an empty directory is removed and nothing
  else changes; a missing path gives \<open>false\<close>; a directory with entries and a path through a
  file throw.
\<close>

lemma real_delete_file_cases:
  assumes "real_ok fs" and "list_all plain_name ns" and "ns \<noteq> []"
  shows "case delete_file real_filesystem fs (plain_path ns) of
      Inl e \<Rightarrow> e = Filesystem_Error \<and>
        ((\<exists>n. real_content fs (ns @ [n]) \<noteq> None \<or> real_dir fs (ns @ [n])) \<or>
         (\<exists>i < length ns. real_content fs (take i ns) \<noteq> None))
    | Inr (fs', removed) \<Rightarrow>
        if removed then (real_content fs ns \<noteq> None \<or> real_dir fs ns) \<and>
          real_content fs' = (real_content fs)(ns := None) \<and> (\<forall>q. real_dir fs' q \<longleftrightarrow> real_dir fs q \<and> q \<noteq> ns)
        else fs' = fs \<and> real_content fs ns = None \<and> \<not> real_dir fs ns"
proof -
  obtain ms n where ns: "ns = ms @ [n]" using assms(3) by (cases ns rule: rev_cases) auto
  let ?d = "fs_cwd fs @ ms" and ?p = "(fs_cwd fs @ ms) @ [n]" and ?t = "fs_root fs"
  have cwd: "is_dir ?t (fs_cwd fs)" using assms(1) by (simp add: real_ok_def)
  have ms: "list_all plain_name ms" using assms(2) by (simp add: ns)
  note del = real_delete_plain [OF assms(1) assms(2) [unfolded ns]]
  show ?thesis
  proof (cases "walk ?t (fs_cwd fs) ms")
    case Enoent
    then have "lookup ?t ?d = None" using walk_plain [OF cwd ms] by auto
    then have "lookup ?t ?p = None" by (simp add: lookup_append del: append_assoc)
    with Enoent show ?thesis unfolding ns del by (simp add: real_defs lookup_cases)
  next
    case Enotdir
    from walk_Enotdir [OF Enotdir cwd ms] obtain i where i: "i < length ms" "file_at ?t (fs_cwd fs @ take i ms) \<noteq> None"
      by blast
    then have "\<exists>i < length ns. real_content fs (take i ns) \<noteq> None"
      by (intro exI [of _ i]) (simp add: ns real_content_def)
    with Enotdir show ?thesis unfolding ns del by simp
  next
    case (Found d)
    with walk_plain [OF cwd ms] have d: "d = ?d" and ex: "lookup ?t ?d \<noteq> None" by auto
    show ?thesis
    proof (cases "is_dir ?t ?d")
      case False
      with ex have "real_content fs (take (length ms) ns) \<noteq> None"
        using lookup_cases [of ?t ?d] by (simp add: real_content_def ns)
      with False Found d show ?thesis unfolding ns del by (auto intro!: exI [of _ "length ms"])
    next
      case True
      from real_delete_entry [OF assms(1) assms(2) [unfolded ns] Found [unfolded d] True] show ?thesis
        unfolding ns by (auto split: sum.splits prod.splits)
    qed
  qed
qed

end
