(* ===== verification/Mock_Filesystem.thy ===== *)
theory Mock_Filesystem
  imports Filesystem
begin

section \<open>The file system of the tests\<close>

text \<open>
  src/mock\_filesystem.cc: the implementation of \<open>filesystem_interface\<close> on a Boost property tree
  that the unit tests hand to the CRUD handler.  The property tree is a library type: the
  record \<open>ptree\<close> holds the operations of it the class calls, on any type of trees, and every
  definition takes it as a parameter; those that throw give a result that may fail.
  The debug output is left out.
\<close>

record 't ptree =
  get_child_optional :: "'t \<Rightarrow> string \<Rightarrow> 't option"
  get_value :: "'t \<Rightarrow> string \<Rightarrow> string result"
  put_value :: "'t \<Rightarrow> string \<Rightarrow> string \<Rightarrow> 't"
  erase_from_child :: "'t \<Rightarrow> string \<Rightarrow> string \<Rightarrow> 't result"
  keys_of_child :: "'t \<Rightarrow> string \<Rightarrow> string list result"

text \<open>
  The loop that deletes \<open>"../"\<close>: after each deletion the search goes on where the deleted part
  was, so the argument is the rest of the string from there.
\<close>

function strip_parents :: "string \<Rightarrow> string" where
  "strip_parents converted =
     (case find_str ''../'' converted of
        None \<Rightarrow> converted
      | Some pos \<Rightarrow> take pos converted @ strip_parents (drop (pos + length ''../'') converted))"
  by pat_completeness auto
termination
proof (relation "measure length")
  fix converted pos assume "find_str ''../'' converted = Some pos"
  then show "(drop (pos + length ''../'') converted, converted) \<in> measure length"
    by (cases converted) (auto split: if_splits)
qed simp

declare strip_parents.simps [simp del]

definition to_mock_format :: "string \<Rightarrow> string" where
  "to_mock_format filename =
     filter (\<lambda>c. c \<noteq> SP) (map (\<lambda>c. if c = SLASH then CHR ''.'' else c) (strip_parents filename))"

definition mock_file_exists :: "'t ptree \<Rightarrow> 't \<Rightarrow> string \<Rightarrow> bool result" where
  "mock_file_exists pt t filename = Inr (get_child_optional pt t (to_mock_format filename) \<noteq> None)"

definition mock_read_file :: "'t ptree \<Rightarrow> 't \<Rightarrow> string \<Rightarrow> string \<Rightarrow> (string \<times> bool) result" where
  "mock_read_file pt t filename contents =
     (let converted = to_mock_format filename in
      bind_res (mock_file_exists pt t converted) (\<lambda>ex.
        if ex then bind_res (get_value pt t converted) (\<lambda>v. Inr (v, True))
        else Inr (contents, False)))"

definition mock_write_file :: "'t ptree \<Rightarrow> 't \<Rightarrow> string \<Rightarrow> string \<Rightarrow> 't result" where
  "mock_write_file pt t filename contents = Inr (put_value pt t (to_mock_format filename) contents)"

definition mock_delete_file :: "'t ptree \<Rightarrow> 't \<Rightarrow> string \<Rightarrow> ('t \<times> bool) result" where
  "mock_delete_file pt t filename =
     (let converted = to_mock_format filename in
      bind_res (mock_file_exists pt t converted) (\<lambda>ex.
        if ex then
          let lastDotPos = find_last_of (CHR ''.'') converted;
              parentPath = (case lastDotPos of None \<Rightarrow> converted | Some i \<Rightarrow> take i converted);
              lastDir = drop (pos_plus lastDotPos 1) converted
          in bind_res (erase_from_child pt t parentPath lastDir) (\<lambda>t'. Inr (t', True))
        else Inr (t, False)))"

definition mock_list_files :: "'t ptree \<Rightarrow> 't \<Rightarrow> string \<Rightarrow> string list result" where
  "mock_list_files pt t path = keys_of_child pt t (to_mock_format path)"

definition mock_filesystem :: "'t ptree \<Rightarrow> 't filesystem_interface" where
  "mock_filesystem pt =
     \<lparr>file_exists = mock_file_exists pt, read_file = mock_read_file pt, write_file = mock_write_file pt,
      delete_file = mock_delete_file pt, list_files = mock_list_files pt\<rparr>"

subsection \<open>The conversion of names\<close>

lemma strip_parents_no_slash: "SLASH \<notin> set s \<Longrightarrow> strip_parents s = s"
proof -
  assume "SLASH \<notin> set s"
  then have "find_str ''../'' s = None" by (auto simp: find_str_None_iff)
  then show ?thesis by (simp add: strip_parents.simps)
qed

lemma to_mock_format_chars: "SLASH \<notin> set (to_mock_format f)" "SP \<notin> set (to_mock_format f)"
  by (auto simp: to_mock_format_def)

lemma to_mock_format_fixed: "SLASH \<notin> set s \<Longrightarrow> SP \<notin> set s \<Longrightarrow> to_mock_format s = s"
proof -
  assume "SLASH \<notin> set s" "SP \<notin> set s"
  then have "map (\<lambda>c. if c = SLASH then CHR ''.'' else c) s = s" "filter (\<lambda>c. c \<noteq> SP) s = s"
    by (auto intro!: map_idI simp: filter_id_conv)
  with \<open>SLASH \<notin> set s\<close> show ?thesis by (simp add: to_mock_format_def strip_parents_no_slash)
qed

lemma to_mock_format_idem: "to_mock_format (to_mock_format f) = to_mock_format f"
  by (rule to_mock_format_fixed) (rule to_mock_format_chars)+

text \<open>
  The test double converts names consistently.  \<open>read_file\<close> and \<open>delete_file\<close> hand the
  converted name to \<open>file_exists\<close>, which converts it again; the conversion is idempotent, so
  the node that is tested is the node that is read, or erased from the node its name has
  before the last dot.  Unlike the real file system, \<open>read_file\<close> replaces what \<open>contents\<close> held.
\<close>

lemma mock_converts_once:
  assumes "to_mock_format f = parent @ CHR ''.'' # name" and "CHR ''.'' \<notin> set name"
  shows "read_file (mock_filesystem pt) t f contents =
      (case get_child_optional pt t (to_mock_format f) of
         None \<Rightarrow> Inr (contents, False)
       | Some n \<Rightarrow> bind_res (get_value pt t (to_mock_format f)) (\<lambda>v. Inr (v, True))) \<and>
    delete_file (mock_filesystem pt) t f =
      (case get_child_optional pt t (to_mock_format f) of
         None \<Rightarrow> Inr (t, False)
       | Some n \<Rightarrow> bind_res (erase_from_child pt t parent name) (\<lambda>t'. Inr (t', True)))"
proof -
  have "to_mock_format (parent @ CHR ''.'' # name) = parent @ CHR ''.'' # name"
    using to_mock_format_idem [of f] assms(1) by simp
  moreover have "find_last_of (CHR ''.'') (parent @ CHR ''.'' # name) = Some (length parent)"
    using assms(2) by (simp add: find_last_of_append)
  ultimately show ?thesis
    using assms(1)
    by (simp add: mock_filesystem_def mock_read_file_def mock_delete_file_def mock_file_exists_def Let_def
        split: option.split)
qed

text \<open>A tree given by the list of its paths and values, for an example.\<close>

definition sample_ptree :: "(string \<times> string) list ptree" where
  "sample_ptree =
     \<lparr>get_child_optional = (\<lambda>t p. if map_of t p = None then None else Some t),
      get_value = (\<lambda>t p. case map_of t p of None \<Rightarrow> Inl Out_Of_Range | Some v \<Rightarrow> Inr v),
      put_value = (\<lambda>t p v. AList.update p v t),
      erase_from_child = (\<lambda>t p k. Inr (AList.delete (p @ CHR ''.'' # k) t)),
      keys_of_child = (\<lambda>t p. Inr (map fst t))\<rparr>"

end
