(* ===== verification/Handlers.thy ===== *)
theory Handlers
  imports Reply Filesystem
begin

section \<open>Request handlers\<close>

text \<open>
  include/request_handler.h and the handlers without a store: src/echo\_request\_handler.cc,
  health, sleep, 404, bad and static.  Of Boost.Beast the model keeps what the handlers read
  and write: verb, target and body of the request; body, status code, Content-Length and
  Content-Type of the response.  \<open>handle_request\<close> takes the response it is to fill, which the
  session reuses from one request to the next, and returns the status and the response.
\<close>

datatype verb = verb_get | verb_post | verb_put | verb_delete | verb_other

record http_request =
  req_method :: verb
  req_target :: string
  req_body :: string

record http_response =
  res_body :: string
  res_result :: nat
  res_content_length :: "nat option"
  res_content_type :: "string option"

text \<open>What a handler called once gives back: its status and the response.\<close>

type_synonym answer = "bool \<times> http_response"

definition empty_response :: http_response where
  "empty_response = \<lparr>res_body = [], res_result = 200, res_content_length = None, res_content_type = None\<rparr>"

text \<open>The setters, in the order and with the arguments of the calls in the sources.\<close>

definition set_body :: "string \<Rightarrow> http_response \<Rightarrow> http_response" where
  "set_body b res = res\<lparr>res_body := b\<rparr>"

definition set_result :: "nat \<Rightarrow> http_response \<Rightarrow> http_response" where
  "set_result s res = res\<lparr>res_result := s\<rparr>"

text \<open>\<open>res.content_length(res.body().size())\<close>\<close>

definition set_length :: "http_response \<Rightarrow> http_response" where
  "set_length res = res\<lparr>res_content_length := Some (length (res_body res))\<rparr>"

definition set_type :: "string \<Rightarrow> http_response \<Rightarrow> http_response" where
  "set_type t res = res\<lparr>res_content_type := Some t\<rparr>"

named_theorems response_simps \<open>the fields after a setter\<close>

lemmas setter_defs [response_simps] = set_body_def set_result_def set_length_def set_type_def

subsection \<open>The handlers without a store\<close>

definition echo_handle_request :: "http_request \<Rightarrow> http_response \<Rightarrow> bool \<times> http_response" where
  "echo_handle_request req res =
     (let res = set_body (req_body req) res;
          res = set_result 200 res;
          res = set_length res;
          res = set_type ''text/plain'' res
      in (True, res))"

definition health_handle_request :: "http_request \<Rightarrow> http_response \<Rightarrow> bool \<times> http_response" where
  "health_handle_request req res =
     (let res = set_body ''OK'' res;
          res = set_result 200 res;
          res = set_length res;
          res = set_type ''text/plain'' res
      in (True, res))"

text \<open>\<open>sleep(2)\<close> advances the clock, which the caller passes in, by two seconds.\<close>

definition sleep_handle_request :: "nat \<Rightarrow> http_request \<Rightarrow> http_response \<Rightarrow> nat \<times> bool \<times> http_response" where
  "sleep_handle_request clock req res =
     (let clock = clock + 2;
          res = set_body (''Slept for 2 seconds'' @ [LF]) res;
          res = set_result 200 res;
          res = set_length res;
          res = set_type ''text/plain'' res
      in (clock, True, res))"

definition not_found_handle_request :: "http_request \<Rightarrow> http_response \<Rightarrow> bool \<times> http_response" where
  "not_found_handle_request req res =
     (let res = set_body stock_not_found res;
          res = set_result 404 res;
          res = set_length res;
          res = set_type ''text/html'' res
      in (True, res))"

definition bad_handle_request :: "http_request \<Rightarrow> http_response \<Rightarrow> bool \<times> http_response" where
  "bad_handle_request req res =
     (let res = set_body stock_bad_request res;
          res = set_result 400 res;
          res = set_length res;
          res = set_type ''text/html'' res
      in (True, res))"

subsection \<open>The static handler\<close>

definition extension_types :: "(string \<times> string) list" where
  "extension_types =
     [(''.htm'', ''text/html''), (''.html'', ''text/html''), (''.php'', ''text/html''),
      (''.css'', ''text/css''), (''.txt'', ''text/plain''), (''.js'', ''application/javascript''),
      (''.json'', ''application/json''), (''.xml'', ''application/xml''),
      (''.swf'', ''application/x-shockwave-flash''), (''.flv'', ''video/x-flv''),
      (''.jpe'', ''image/jpeg''), (''.jpeg'', ''image/jpeg''), (''.jpg'', ''image/jpeg''),
      (''.gif'', ''image/gif''), (''.bmp'', ''image/bmp''), (''.ico'', ''image/vnd.microsoft.icon''),
      (''.tiff'', ''image/tiff''), (''.tif'', ''image/tiff''), (''.svg'', ''image/svg+xml''),
      (''.svgz'', ''image/svg+xml''), (''.zip'', ''application/zip''), (''.pdf'', ''application/pdf''),
      (''.png'', ''image/png'')]"

definition extension_type_map :: "string \<Rightarrow> string" where
  "extension_type_map ext = (case map_of extension_types ext of None \<Rightarrow> ''application/text'' | Some t \<Rightarrow> t)"

text \<open>
  An input stream on a path: the bytes \<open>get\<close> delivers, or \<open>None\<close> when it does not open.  A
  directory opens and delivers nothing.
\<close>

definition input_file :: "real_fs \<Rightarrow> string \<Rightarrow> string option" where
  "input_file fs p =
     (case resolve fs p of
        Found q \<Rightarrow>
          (case lookup (fs_root fs) q of
             Some (File s) \<Rightarrow> Some s
           | Some (Dir es) \<Rightarrow> Some []
           | None \<Rightarrow> None)
      | _ \<Rightarrow> None)"

fun get_loop :: "string \<Rightarrow> string \<Rightarrow> string" where
  "get_loop file_contents [] = file_contents"
| "get_loop file_contents (c # cs) = get_loop (file_contents @ [c]) cs"

definition static_handle_request ::
    "string \<Rightarrow> real_fs \<Rightarrow> http_request \<Rightarrow> http_response \<Rightarrow> bool \<times> http_response" where
  "static_handle_request file_path fs req res =
     (let static_file = input_file fs file_path;
          absolute_path = [SLASH] @ file_path;
          static_file_absolute = input_file fs absolute_path
      in if static_file = None \<and> static_file_absolute = None then
           (let res = set_body stock_not_found res;
                res = set_result 404 res;
                res = set_length res;
                res = set_type ''text/html'' res
            in (False, res))
         else
           (let ext_type = (case find_last_of (CHR ''.'') file_path of
                  None \<Rightarrow> []
                | Some extension_start \<Rightarrow> drop extension_start file_path);
                file_contents =
                  (case (static_file, static_file_absolute) of
                     (Some s, None) \<Rightarrow> get_loop [] s
                   | (Some s, Some a) \<Rightarrow> get_loop [] s
                   | (None, Some a) \<Rightarrow> get_loop [] a
                   | (None, None) \<Rightarrow> []);
                res = set_body file_contents res;
                res = set_result 200 res;
                res = set_length res;
                res = set_type (extension_type_map ext_type) res
            in (True, res)))"

lemma get_loop_append: "get_loop acc s = acc @ s"
  by (induction s arbitrary: acc) simp_all

subsection \<open>Handlers that fill the whole response\<close>

text \<open>
  The session keeps one response object and hands it to every handler.  A handler that sets
  every field cannot leak a field of an earlier response, and one that sets the length last
  announces the body it sends.
\<close>

locale response_filler =
  fixes handle :: "http_request \<Rightarrow> http_response \<Rightarrow> bool \<times> http_response"
  assumes fills: "handle req r = handle req r'"
    and length_last: "res_content_length (snd (handle req r)) = Some (length (res_body (snd (handle req r))))"
    and typed: "res_content_type (snd (handle req r)) \<noteq> None"
begin

text \<open>The response after any run of requests is the response to the last one alone.\<close>

lemma last_request_only:
  "foldl (\<lambda>r req. snd (handle req r)) r0 (reqs @ [req]) = snd (handle req empty_response)"
  by simp (metis fills)

lemma all_responses_framed:
  "reqs \<noteq> [] \<Longrightarrow> (let r = foldl (\<lambda>r req. snd (handle req r)) r0 reqs in
     res_content_length r = Some (length (res_body r)) \<and> res_content_type r \<noteq> None)"
  by (cases reqs rule: rev_cases) (simp_all add: length_last typed Let_def del: not_None_eq)

end

interpretation echo: response_filler echo_handle_request
  by unfold_locales (simp_all add: echo_handle_request_def response_simps)

interpretation health: response_filler health_handle_request
  by unfold_locales (simp_all add: health_handle_request_def response_simps)

interpretation sleeper: response_filler "\<lambda>req res. snd (sleep_handle_request clock req res)" for clock
  by unfold_locales (simp_all add: sleep_handle_request_def response_simps)

interpretation not_found: response_filler not_found_handle_request
  by unfold_locales (simp_all add: not_found_handle_request_def response_simps)

interpretation bad_request: response_filler bad_handle_request
  by unfold_locales (simp_all add: bad_handle_request_def response_simps)

interpretation static: response_filler "static_handle_request file_path fs" for file_path fs
  by unfold_locales (simp_all add: static_handle_request_def response_simps Let_def)


text \<open>
  The static handler serves the bytes of the file.  When the configured path opens, the
  answer is 200 with exactly its content, the content's length and the type of the extension
  after the last dot; the body is that of the relative path even when the same path under the
  root opens too, and nothing of an earlier response remains.
\<close>

lemma static_serves_file:
  assumes "input_file fs (stem @ ''.'' @ ext) = Some s" and "CHR ''.'' \<notin> set ext"
  shows "static_handle_request (stem @ ''.'' @ ext) fs req res =
    (True, \<lparr>res_body = s, res_result = 200, res_content_length = Some (length s),
            res_content_type = Some (extension_type_map (''.'' @ ext))\<rparr>)"
proof -
  have "find_last_of (CHR ''.'') (stem @ CHR ''.'' # ext) = Some (length stem)"
    using assms(2) by (rule find_last_of_append)
  then show ?thesis
    using assms(1) by (auto simp: static_handle_request_def Let_def response_simps get_loop_append split: option.split)
qed

text \<open>
  The static handler answers 404 exactly when neither the path nor the path under the root
  directory opens; then the response is the stock page, and it reports failure.
\<close>

lemma static_not_found_iff:
  "fst (static_handle_request p fs req res) = False \<longleftrightarrow>
     (\<forall>q \<in> {p, [SLASH] @ p}. \<forall>r. resolve fs q \<noteq> Found r \<or> lookup (fs_root fs) r = None)"
proof -
  have "input_file fs q = None \<longleftrightarrow> (\<forall>r. resolve fs q \<noteq> Found r \<or> lookup (fs_root fs) r = None)" for q
    by (auto simp: input_file_def split: walk_result.split option.split node.split)
  then show ?thesis by (auto simp: static_handle_request_def Let_def)
qed

end
