(* ===== verification/Crud_Handler.thy ===== *)
theory Crud_Handler
  imports Handlers
begin

section \<open>The CRUD handler\<close>

text \<open>
  src/crud\_request\_handler.cc: entities are directories below the configured data path, their
  instances files named by a positive number.  The handler reaches the files through the
  interface only, so it is modelled over any \<open>filesystem_interface\<close>; what it promises is proved
  from \<open>filesystem_contract\<close> and holds of the real file system by its interpretation.
\<close>

text \<open>The first free instance number; \<open>ID += 1\<close> overflows above \<open>INT_MAX\<close>.\<close>

function next_id :: "'fs filesystem_interface \<Rightarrow> 'fs \<Rightarrow> string \<Rightarrow> int \<Rightarrow> int result" where
  "next_id F fs path ID =
     bind_res (file_exists F fs (path @ ''/'' @ to_string ID)) (\<lambda>taken.
       if taken then bind_res (chk_int (ID + 1)) (\<lambda>ID'. next_id F fs path ID') else Inr ID)"
  by pat_completeness auto

termination
  by (relation "measure (\<lambda>(F, fs, path, ID). nat (INT_MAX - ID))") (auto simp: res_simps)

declare next_id.simps [simp del]

fun string_vector_to_json_loop :: "string \<Rightarrow> string list \<Rightarrow> string" where
  "string_vector_to_json_loop json [] = json"
| "string_vector_to_json_loop json (e # es) =
     string_vector_to_json_loop (json @ e @ (if es \<noteq> [] then '', '' else [])) es"

definition string_vector_to_json :: "string list \<Rightarrow> string" where
  "string_vector_to_json elementList = string_vector_to_json_loop ''['' elementList @ '']''"

text \<open>\<open>std::string body_data = req.body().data()\<close> stops at the first NUL.\<close>

definition c_string :: "string \<Rightarrow> string" where
  "c_string s = takeWhile (\<lambda>c. c \<noteq> NUL) s"

text \<open>\<open>body_data.substr(body_data.find("\r\n\r\n") + 4)\<close>\<close>

definition skip_headers :: "string \<Rightarrow> string result" where
  "skip_headers body_data = substr_from body_data (pos_plus (find_str BLANK_LINE body_data) 4)"

type_synonym 'fs handled = "('fs \<times> bool \<times> http_response) result"

text \<open>The four requests, on the path of the entity or instance.\<close>

definition crud_post ::
    "'fs filesystem_interface \<Rightarrow> string \<Rightarrow> bool \<Rightarrow> 'fs \<Rightarrow> http_request \<Rightarrow> http_response \<Rightarrow> 'fs handled" where
  "crud_post F path_to_entities isID fs req res =
     (if isID then
        (let res = set_body (''id in request uri of post request'' @ [LF]) res;
             res = set_result 400 res;
             res = set_length res;
             res = set_type ''application/json'' res
         in Inr (fs, False, res))
      else
        bind_res (file_exists F fs path_to_entities) (\<lambda>entity_exists.
        bind_res (if \<not> entity_exists then Inr 1 else next_id F fs path_to_entities 1) (\<lambda>ID.
        let instancePath = (if \<not> entity_exists then path_to_entities @ ''/1''
              else path_to_entities @ ''/'' @ to_string ID);
            body_data = c_string (req_body req)
        in
        bind_res (skip_headers body_data) (\<lambda>POST_data.
        bind_res (write_file F fs instancePath POST_data) (\<lambda>fs.
          let res = set_body (''{'' @ [DQUOTE] @ ''id'' @ [DQUOTE] @ '': '' @ to_string ID @ ''}'' @ [LF]) res;
              res = set_result 201 res;
              res = set_length res;
              res = set_type ''application/json'' res
          in Inr (fs, True, res))))))"

definition crud_get ::
    "'fs filesystem_interface \<Rightarrow> string \<Rightarrow> 'fs \<Rightarrow> http_response \<Rightarrow> 'fs handled" where
  "crud_get F path_to_entities fs res =
     (let endpoint = drop (pos_plus (find_last_of SLASH path_to_entities) 1) path_to_entities in
      if stoi endpoint = None then
        bind_res (file_exists F fs path_to_entities) (\<lambda>found.
          if found then
            bind_res (list_files F fs path_to_entities) (\<lambda>allIds.
              let idList = string_vector_to_json allIds;
                  res = set_result 200 res;
                  res = set_type ''application/json'' res;
                  res = set_body (idList @ [LF]) res
              in Inr (fs, True, res))
          else
            (let res = set_result 404 res;
                 res = set_type ''application/json'' res;
                 res = set_body (''Directory not found'' @ [LF]) res;
                 res = set_length res
             in Inr (fs, False, res)))
      else
        bind_res (file_exists F fs path_to_entities) (\<lambda>found.
          if found then
            bind_res (read_file F fs path_to_entities []) (\<lambda>(file_content, result).
              if result then
                (let res = set_result 200 res;
                     res = set_type ''application/json'' res;
                     res = set_body file_content res;
                     res = set_length res
                 in Inr (fs, True, res))
              else
                (let res = set_result 400 res;
                     res = set_length res;
                     res = set_type ''application/json'' res;
                     res = set_body (''Error reading file'' @ [LF]) res
                 in Inr (fs, False, res)))
          else
            (let res = set_result 404 res;
                 res = set_type ''application/json'' res;
                 res = set_body (''File does not exist'' @ [LF]) res;
                 res = set_length res
             in Inr (fs, False, res))))"

definition crud_delete ::
    "'fs filesystem_interface \<Rightarrow> string \<Rightarrow> bool \<Rightarrow> 'fs \<Rightarrow> http_response \<Rightarrow> 'fs handled" where
  "crud_delete F path_to_entities isID fs res =
     (if isID then
        bind_res (file_exists F fs path_to_entities) (\<lambda>found.
          if found then
            bind_res (delete_file F fs path_to_entities) (\<lambda>(fs, result).
              if result then
                (let res = set_result 200 res;
                     res = set_type ''application/json'' res;
                     res = set_body (''Deleted '' @ path_to_entities @ '' from the server'' @ [LF]) res;
                     res = set_length res
                 in Inr (fs, True, res))
              else
                (let res = set_result 400 res;
                     res = set_length res;
                     res = set_type ''application/json'' res;
                     res = set_body (''Error deleting file'' @ [LF]) res
                 in Inr (fs, False, res)))
          else
            (let res = set_result 404 res;
                 res = set_length res;
                 res = set_type ''application/json'' res;
                 res = set_body (''File does not exist'' @ [LF]) res
             in Inr (fs, False, res)))
      else
        (let res = set_body (''numerical id not in request uri of delete request'' @ [LF]) res;
             res = set_result 400 res;
             res = set_length res;
             res = set_type ''application/json'' res
         in Inr (fs, False, res)))"

definition crud_put ::
    "'fs filesystem_interface \<Rightarrow> string \<Rightarrow> bool \<Rightarrow> 'fs \<Rightarrow> http_request \<Rightarrow> http_response \<Rightarrow> 'fs handled" where
  "crud_put F path_to_entities isID fs req res =
     (if isID then
        let body_data = c_string (req_body req) in
        bind_res (skip_headers body_data) (\<lambda>PUT_data.
        bind_res (file_exists F fs path_to_entities) (\<lambda>found.
          let res = (if found then set_result 200 res else set_result 201 res);
              res = set_type ''application/json'' res;
              res = set_body (''Edited '' @ path_to_entities @ '' on the server'' @ [LF]) res
          in bind_res (write_file F fs path_to_entities PUT_data) (\<lambda>fs. Inr (fs, True, res))))
      else
        (let res = set_body (''numerical id not in request uri of put request'' @ [LF]) res;
             res = set_result 400 res;
             res = set_length res;
             res = set_type ''application/json'' res
         in Inr (fs, False, res)))"

definition crud_handle_request ::
    "'fs filesystem_interface \<Rightarrow> string \<Rightarrow> 'fs \<Rightarrow> http_request \<Rightarrow> http_response \<Rightarrow> 'fs handled" where
  "crud_handle_request F data_path fs req res =
     (let target = req_target req in
      case find_char SLASH target of
        None \<Rightarrow>
          (let res = set_body (''Request uri '' @ target @ '' has no slashes'' @ [LF]) res;
               res = set_result 400 res;
               res = set_length res;
               res = set_type ''application/json'' res
           in Inr (fs, False, res))
      | Some firstSlashPos \<Rightarrow>
          (case find_char SLASH (drop (firstSlashPos + 1) target) of
             None \<Rightarrow>
               (let res = set_body (''Request uri '' @ target @ '' only has 1 slash, instead of 2'' @ [LF]) res;
                    res = set_result 400 res;
                    res = set_length res;
                    res = set_type ''application/json'' res
                in Inr (fs, False, res))
           | Some i \<Rightarrow>
               (let secondSlashPos = firstSlashPos + 1 + i;
                    suffix = drop (secondSlashPos + 1) target;
                    path_to_entities = ''.'' @ data_path @ ''/'' @ suffix;
                    basename = drop (pos_plus (find_last_of SLASH target) 1) target;
                    isID = list_all isdigit basename
                in (case req_method req of
                      verb_post \<Rightarrow> crud_post F path_to_entities isID fs req res
                    | verb_get \<Rightarrow> crud_get F path_to_entities fs res
                    | verb_delete \<Rightarrow> crud_delete F path_to_entities isID fs res
                    | verb_put \<Rightarrow> crud_put F path_to_entities isID fs req res
                    | verb_other \<Rightarrow> Inr (fs, False, res)))))"

subsection \<open>The path of a request\<close>

definition last_component :: "string \<Rightarrow> string" where
  "last_component s = drop (pos_plus (find_last_of SLASH s) 1) s"

lemma last_component_no_slash: "SLASH \<notin> set s \<Longrightarrow> last_component s = s"
  by (simp add: last_component_def find_last_of_None_iff [THEN iffD2])

lemma last_component_append: "last_component (u @ SLASH # s) = last_component s"
proof (cases "SLASH \<in> set s")
  case False
  then show ?thesis by (simp add: last_component_no_slash) (simp add: last_component_def find_last_of_append)
next
  case True
  then obtain i where i: "find_last_of SLASH s = Some i" using find_last_of_None_iff by fastforce
  then obtain a b where ab: "s = a @ SLASH # b" "length a = i" "SLASH \<notin> set b"
    using find_last_of_SomeD by blast
  then have "find_last_of SLASH ((u @ SLASH # a) @ SLASH # b) = Some (length (u @ SLASH # a))"
    by (intro find_last_of_append)
  with i ab show ?thesis by (simp add: last_component_def)
qed

lemma crud_dispatch:
  assumes "req_target req = SLASH # a @ SLASH # sfx" and "SLASH \<notin> set a"
  shows "crud_handle_request F data_path fs req res =
    (let p = ''.'' @ data_path @ ''/'' @ sfx; isID = list_all isdigit (last_component sfx) in
     case req_method req of
       verb_post \<Rightarrow> crud_post F p isID fs req res
     | verb_get \<Rightarrow> crud_get F p fs res
     | verb_delete \<Rightarrow> crud_delete F p isID fs res
     | verb_put \<Rightarrow> crud_put F p isID fs req res
     | verb_other \<Rightarrow> Inr (fs, False, res))"
proof -
  have "find_char SLASH (a @ SLASH # sfx) = Some (length a)"
    using assms(2) by (simp add: find_char_append)
  moreover have "drop (pos_plus (find_last_of SLASH (req_target req)) 1) (req_target req) = last_component sfx"
    using last_component_append [of "SLASH # a" sfx] by (simp add: assms(1) last_component_def)
  ultimately show ?thesis
    by (simp add: crud_handle_request_def Let_def assms(1) split: verb.split)
qed

lemma crud_get_endpoint:
  "drop (pos_plus (find_last_of SLASH (''.'' @ dp @ ''/'' @ sfx)) 1) (''.'' @ dp @ ''/'' @ sfx) = last_component sfx"
  using last_component_append [of "''.'' @ dp" sfx] by (simp add: last_component_def)

text \<open>A data path \<open>/d1/d2\<close> and the URIs below it.\<close>

definition slashed :: "string list \<Rightarrow> string" where
  "slashed ns = concat (map (\<lambda>n. SLASH # n) ns)"

lemma plain_path_slashed: "''.'' @ slashed ds @ ''/'' @ e = plain_path (ds @ [e])"
  "''.'' @ slashed ds @ ''/'' @ e @ ''/'' @ i = plain_path ((ds @ [e]) @ [i])"
  by (simp_all add: plain_path_def slashed_def)

lemma plain_name_show_nat [simp]: "plain_name (show_nat n)"
proof -
  have "\<not> isdigit (CHR ''.'')" "\<not> isdigit SLASH" by (simp_all add: isdigit_def)
  then have "CHR ''.'' \<notin> set (show_nat n)" "SLASH \<notin> set (show_nat n)" using show_nat_digits by blast+
  then show ?thesis by (auto simp: plain_name_def)
qed

lemma last_component_instance: "last_component (e @ ''/'' @ show_nat n) = show_nat n"
proof -
  have "SLASH \<notin> set (show_nat n)" using plain_name_show_nat [of n] by (simp add: plain_name_def)
  then show ?thesis using last_component_append [of e "show_nat n"] by (simp add: last_component_no_slash)
qed

lemma last_component_entity: "plain_name e \<Longrightarrow> last_component e = e"
  by (simp add: plain_name_def last_component_no_slash)

lemma show_nat_1: "show_nat 1 = ''1''"
  by code_simp

subsection \<open>The first free number\<close>

lemma next_id_first:
  assumes "\<And>i. k \<le> i \<Longrightarrow> i < n \<Longrightarrow> file_exists F fs (path @ ''/'' @ to_string i) = Inr True"
    and "file_exists F fs (path @ ''/'' @ to_string n) = Inr False"
    and "k \<le> n" and "INT_MIN \<le> k" and "n \<le> INT_MAX"
  shows "next_id F fs path k = Inr n"
  using assms
proof (induction "nat (n - k)" arbitrary: k)
  case 0
  then have "k = n" by simp
  with 0 show ?case by (subst next_id.simps) simp
next
  case (Suc d)
  then have "file_exists F fs (path @ ''/'' @ to_string k) = Inr True" "chk_int (k + 1) = Inr (k + 1)"
    by (simp_all add: chk_int_def)
  moreover have "next_id F fs path (k + 1) = Inr n"
    using Suc.prems Suc.hyps(2) by (intro Suc.hyps(1)) simp_all
  ultimately show ?case by (subst next_id.simps) simp
qed

text \<open>When every number is taken the counter overflows.\<close>

lemma next_id_overflow:
  assumes "\<And>i. k \<le> i \<Longrightarrow> i \<le> INT_MAX \<Longrightarrow> file_exists F fs (path @ ''/'' @ to_string i) = Inr True"
    and "INT_MIN \<le> k" and "k \<le> INT_MAX"
  shows "next_id F fs path k = Inl Undefined_Behaviour"
  using assms
proof (induction "nat (INT_MAX - k)" arbitrary: k)
  case 0
  then have "k = INT_MAX" by simp
  with 0 show ?case by (subst next_id.simps) (simp add: chk_int_def)
next
  case (Suc d)
  then have "file_exists F fs (path @ ''/'' @ to_string k) = Inr True" "chk_int (k + 1) = Inr (k + 1)"
    by (simp_all add: chk_int_def)
  moreover have "next_id F fs path (k + 1) = Inl Undefined_Behaviour"
    using Suc.prems Suc.hyps(2) by (intro Suc.hyps(1)) simp_all
  ultimately show ?case by (subst next_id.simps) simp
qed

subsection \<open>A collection as a map from numbers to contents\<close>

text \<open>The abstract store of one entity and its operations.\<close>

type_synonym store = "nat \<Rightarrow> string option"

definition first_free :: "store \<Rightarrow> nat \<Rightarrow> bool" where
  "first_free m n \<longleftrightarrow> 1 \<le> n \<and> m n = None \<and> (\<forall>i. 1 \<le> i \<and> i < n \<longrightarrow> m i \<noteq> None)"

lemma first_free_unique: "first_free m n \<Longrightarrow> first_free m n' \<Longrightarrow> n = n'"
  unfolding first_free_def by (metis linorder_neqE_nat)

definition json_response :: "nat \<Rightarrow> string \<Rightarrow> nat option \<Rightarrow> http_response" where
  "json_response s b l = \<lparr>res_body = b, res_result = s, res_content_length = l,
     res_content_type = Some ''application/json''\<rparr>"

definition id_body :: "nat \<Rightarrow> string" where
  "id_body n = ''{'' @ [DQUOTE] @ ''id'' @ [DQUOTE] @ '': '' @ show_nat n @ ''}'' @ [LF]"

context filesystem_contract
begin

definition collection :: "'fs \<Rightarrow> string list \<Rightarrow> store" where
  "collection fs ns = (\<lambda>n. content fs (ns @ [show_nat n]))"

text \<open>An entity path that no file blocks and whose numbered entries are files.\<close>

definition entity_path :: "'fs \<Rightarrow> string list \<Rightarrow> bool" where
  "entity_path fs ns \<longleftrightarrow> ok fs \<and> ns \<noteq> [] \<and> list_all plain_name ns \<and>
     (\<forall>i \<le> length ns. content fs (take i ns) = None) \<and> (\<forall>n. \<not> dir fs (ns @ [show_nat n]))"

lemma entity_instance_writable:
  "entity_path fs ns \<Longrightarrow> writable fs (ns @ [show_nat n])"
  by (auto simp: entity_path_def writable_def)

lemma entity_exists:
  assumes "entity_path fs ns"
  shows "file_exists F fs (plain_path ns) = Inr (dir fs ns)"
    and "file_exists F fs (plain_path ns @ ''/'' @ show_nat n) = Inr (collection fs ns n \<noteq> None)"
proof -
  have n: "content fs ns = None" using assms by (auto simp: entity_path_def dest: spec [of _ "length ns"])
  then show "file_exists F fs (plain_path ns) = Inr (dir fs ns)"
    using assms exists_law [of fs ns] by (simp add: entity_path_def)
  show "file_exists F fs (plain_path ns @ ''/'' @ show_nat n) = Inr (collection fs ns n \<noteq> None)"
    using assms exists_law [of fs "ns @ [show_nat n]"]
    by (simp add: entity_path_def plain_path_snoc collection_def)
qed

lemma collection_dir: "entity_path fs ns \<Longrightarrow> collection fs ns n \<noteq> None \<Longrightarrow> dir fs ns"
  using parent_law [of fs ns "show_nat n"] by (auto simp: entity_path_def collection_def)

text \<open>Writing an instance changes the collection there and keeps the entity path.\<close>

lemma write_instance:
  assumes "entity_path fs ns"
  shows "\<exists>fs'. write_file F fs (plain_path ns @ ''/'' @ show_nat n) s = Inr fs' \<and> entity_path fs' ns \<and>
    collection fs' ns = (collection fs ns)(n \<mapsto> s) \<and>
    content fs' = (content fs)(ns @ [show_nat n] \<mapsto> s)"
proof -
  have w: "writable fs (ns @ [show_nat n])" using assms by (rule entity_instance_writable)
  obtain fs' where fs': "write_file F fs (plain_path (ns @ [show_nat n])) s = Inr fs'" "ok fs'"
    "content fs' = (content fs)(ns @ [show_nat n] \<mapsto> s)"
    "\<forall>q. dir fs' q \<longleftrightarrow> dir fs q \<or> strict_prefix q (ns @ [show_nat n])"
    using write_law [of fs "ns @ [show_nat n]" s] w assms by (auto simp: entity_path_def writable_def)
  have "take i ns \<noteq> ns @ [show_nat n]" for i
    by (metis append_eq_conv_conj append_self_conv length_take list.distinct(1) min.cobounded1 take_all_iff
        append_take_drop_id length_append_singleton not_less_eq_eq length_take min.bounded_iff order_refl)
  moreover have "\<not> strict_prefix (ns @ [show_nat m]) (ns @ [show_nat n])" for m
    by (auto simp: strict_prefix_def)
  ultimately have "entity_path fs' ns" using assms fs' by (auto simp: entity_path_def)
  moreover have "collection fs' ns = (collection fs ns)(n \<mapsto> s)"
    by (auto simp: collection_def fs' fun_eq_iff)
  ultimately show ?thesis using fs' by (auto simp: plain_path_snoc)
qed

lemma post_refines:
  assumes e: "entity_path fs ns" and free: "first_free (collection fs ns) n" and n: "int n \<le> INT_MAX"
    and body: "skip_headers (c_string (req_body req)) = Inr s"
  shows "\<exists>fs'. crud_post F (plain_path ns) False fs req res =
      Inr (fs', True, json_response 201 (id_body n) (Some (length (id_body n)))) \<and>
    entity_path fs' ns \<and> collection fs' ns = (collection fs ns)(n \<mapsto> s)"
proof -
  obtain fs' where fs': "write_file F fs (plain_path ns @ ''/'' @ show_nat n) s = Inr fs'"
    "entity_path fs' ns" "collection fs' ns = (collection fs ns)(n \<mapsto> s)"
    using write_instance [OF e] by blast
  have id: "(if \<not> dir fs ns then Inr 1 else next_id F fs (plain_path ns) 1) = Inr (int n)"
  proof (cases "dir fs ns")
    case True
    have "next_id F fs (plain_path ns) 1 = Inr (int n)"
    proof (rule next_id_first)
      fix i :: int assume i: "1 \<le> i" "i < int n"
      then have "1 \<le> nat i" "nat i < n" by simp_all
      then have "collection fs ns (nat i) \<noteq> None" using free unfolding first_free_def by blast
      with entity_exists(2) [OF e, of "nat i"] i
      show "file_exists F fs (plain_path ns @ ''/'' @ to_string i) = Inr True"
        by (simp add: to_string_def)
    qed (use free n entity_exists(2) [OF e, of n] in \<open>simp_all add: first_free_def INT_MIN_def\<close>)
    with True show ?thesis by simp
  next
    case False
    then have "collection fs ns i = None" for i using collection_dir [OF e] by blast
    then have "n = 1" using free by (intro first_free_unique) (auto simp: first_free_def)
    with False show ?thesis by simp
  qed
  have path: "(if \<not> dir fs ns then plain_path ns @ ''/1'' else plain_path ns @ ''/'' @ show_nat n) =
      plain_path ns @ ''/'' @ show_nat n"
  proof (cases "dir fs ns")
    case False
    then have "n = 1" using id by simp
    then show ?thesis using show_nat_1 by simp
  qed simp
  show ?thesis
    using fs' id path body entity_exists(1) [OF e]
    by (auto simp: crud_post_def Let_def response_simps json_response_def id_body_def)
qed

end

text \<open>
  The contract of a collection: what each request does to the map and what it answers, with
  \<open>p\<close> the path that the messages name.
\<close>

datatype rest_op = Create string | Read nat | Replace nat string | Remove nat

definition missing_body :: string where
  "missing_body = ''File does not exist'' @ [LF]"

definition edited_body :: "string \<Rightarrow> nat \<Rightarrow> string" where
  "edited_body p n = ''Edited '' @ p @ ''/'' @ show_nat n @ '' on the server'' @ [LF]"

definition deleted_body :: "string \<Rightarrow> nat \<Rightarrow> string" where
  "deleted_body p n = ''Deleted '' @ p @ ''/'' @ show_nat n @ '' from the server'' @ [LF]"

inductive rest_step :: "string \<Rightarrow> store \<Rightarrow> rest_op \<Rightarrow> store \<Rightarrow> nat \<Rightarrow> string \<Rightarrow> bool" for p where
  create: "first_free m n \<Longrightarrow> rest_step p m (Create s) (m(n \<mapsto> s)) 201 (id_body n)"
| read_hit: "m n = Some s \<Longrightarrow> rest_step p m (Read n) m 200 s"
| read_miss: "m n = None \<Longrightarrow> rest_step p m (Read n) m 404 missing_body"
| replace: "rest_step p m (Replace n s) (m(n \<mapsto> s)) (if m n = None then 201 else 200) (edited_body p n)"
| remove_hit: "m n \<noteq> None \<Longrightarrow> rest_step p m (Remove n) (m(n := None)) 200 (deleted_body p n)"
| remove_miss: "m n = None \<Longrightarrow> rest_step p m (Remove n) m 404 missing_body"

inductive_cases rest_createE: "rest_step p m (Create s) m' st b"
inductive_cases rest_readE: "rest_step p m (Read n) m' st b"

text \<open>The request of an operation on the entity \<open>e\<close> below the location \<open>a\<close>, with header bytes \<open>h\<close>.\<close>

fun request_of :: "string \<Rightarrow> string \<Rightarrow> string \<Rightarrow> rest_op \<Rightarrow> http_request" where
  "request_of a e h (Create s) =
     \<lparr>req_method = verb_post, req_target = SLASH # a @ SLASH # e, req_body = h @ BLANK_LINE @ s\<rparr>"
| "request_of a e h (Read n) =
     \<lparr>req_method = verb_get, req_target = SLASH # a @ SLASH # e @ ''/'' @ show_nat n, req_body = h @ BLANK_LINE\<rparr>"
| "request_of a e h (Replace n s) =
     \<lparr>req_method = verb_put, req_target = SLASH # a @ SLASH # e @ ''/'' @ show_nat n, req_body = h @ BLANK_LINE @ s\<rparr>"
| "request_of a e h (Remove n) =
     \<lparr>req_method = verb_delete, req_target = SLASH # a @ SLASH # e @ ''/'' @ show_nat n, req_body = h @ BLANK_LINE\<rparr>"

text \<open>
  When an operation is in the code's range: the body survives as a C string with its first
  blank line after the headers, and numbers are \<open>int\<close>s.
\<close>

fun in_range :: "string \<Rightarrow> store \<Rightarrow> rest_op \<Rightarrow> bool" where
  "in_range h m (Create s) =
     (skip_headers (c_string (h @ BLANK_LINE @ s)) = Inr s \<and> (\<exists>n. first_free m n \<and> int n \<le> INT_MAX))"
| "in_range h m (Read n) = (int n \<le> INT_MAX)"
| "in_range h m (Replace n s) = (skip_headers (c_string (h @ BLANK_LINE @ s)) = Inr s)"
| "in_range h m (Remove n) = True"

text \<open>Bytes without NUL whose headers hold no blank line survive.\<close>

lemma skip_headers_body:
  assumes "find_str BLANK_LINE (h @ BLANK_LINE @ s) = Some (length h)" and "NUL \<notin> set h" and "NUL \<notin> set s"
  shows "skip_headers (c_string (h @ BLANK_LINE @ s)) = Inr s"
proof -
  have "\<forall>c \<in> set (h @ BLANK_LINE @ s). c \<noteq> NUL" using assms(2,3) by (auto simp: BLANK_LINE_def)
  then have "c_string (h @ BLANK_LINE @ s) = h @ BLANK_LINE @ s"
    unfolding c_string_def by (simp only: takeWhile_eq_all_conv)
  then show ?thesis
    using assms(1) by (simp add: skip_headers_def substr_from_def) (simp add: BLANK_LINE_def)
qed

context filesystem_contract
begin

lemma put_refines:
  assumes e: "entity_path fs ns" and body: "skip_headers (c_string (req_body req)) = Inr s"
  shows "\<exists>fs' res'. crud_put F (plain_path ns @ ''/'' @ show_nat n) True fs req res = Inr (fs', True, res') \<and>
    res_result res' = (if collection fs ns n = None then 201 else 200) \<and>
    res_body res' = edited_body (plain_path ns) n \<and>
    res_content_length res' = res_content_length res \<and>
    entity_path fs' ns \<and> collection fs' ns = (collection fs ns)(n \<mapsto> s)"
  using write_instance [OF e, of n s] body entity_exists(2) [OF e, of n]
  by (auto simp: crud_put_def Let_def response_simps edited_body_def)

lemma get_refines:
  assumes e: "entity_path fs ns" and n: "int n \<le> INT_MAX"
  shows "crud_get F (plain_path ns @ ''/'' @ show_nat n) fs res =
    (case collection fs ns n of
       Some s \<Rightarrow> Inr (fs, True, json_response 200 s (Some (length s)))
     | None \<Rightarrow> Inr (fs, False, json_response 404 missing_body (Some (length missing_body))))"
proof -
  have ep: "drop (pos_plus (find_last_of SLASH (plain_path ns @ ''/'' @ show_nat n)) 1)
      (plain_path ns @ ''/'' @ show_nat n) = show_nat n"
    using last_component_instance [of "plain_path ns" n] by (simp add: last_component_def)
  have st: "stoi (show_nat n) = Some (int n)" using n by (simp add: stoi_show_nat)
  have plain: "list_all plain_name (ns @ [show_nat n])" and ok: "ok fs" using e by (simp_all add: entity_path_def)
  show ?thesis
  proof (cases "collection fs ns n")
    case None
    with entity_exists(2) [OF e, of n] st show ?thesis
      unfolding crud_get_def ep Let_def by (simp add: response_simps json_response_def missing_body_def)
  next
    case (Some s)
    then have "read_file F fs (plain_path ns @ ''/'' @ show_nat n) [] = Inr (s, True)"
      using read_law [OF ok plain, of s "[]"] by (simp add: collection_def plain_path_snoc)
    with Some entity_exists(2) [OF e, of n] st show ?thesis
      unfolding crud_get_def ep Let_def by (simp add: response_simps json_response_def)
  qed
qed

lemma delete_refines:
  assumes e: "entity_path fs ns"
  shows "\<exists>fs' res'. crud_delete F (plain_path ns @ ''/'' @ show_nat n) True fs res =
      Inr (fs', collection fs ns n \<noteq> None, res') \<and>
    entity_path fs' ns \<and> collection fs' ns = (collection fs ns)(n := None) \<and>
    (collection fs ns n = None \<longrightarrow> fs' = fs \<and> res_result res' = 404 \<and>
      res_body res' = missing_body \<and> res_content_length res' = Some (length (res_body res))) \<and>
    (collection fs ns n \<noteq> None \<longrightarrow> res_result res' = 200 \<and>
      res_body res' = deleted_body (plain_path ns) n \<and>
      res_content_length res' = Some (length (res_body res')))"
proof (cases "collection fs ns n")
  case None
  then have "collection fs ns = (collection fs ns)(n := None)" by (auto simp: fun_eq_iff)
  with None e entity_exists(2) [OF e, of n] show ?thesis
    by (auto simp: crud_delete_def Let_def response_simps missing_body_def deleted_body_def)
next
  case (Some s)
  have plain: "list_all plain_name (ns @ [show_nat n])" and ok: "ok fs" using e by (simp_all add: entity_path_def)
  have "content fs (ns @ [show_nat n]) \<noteq> None" using Some by (simp add: collection_def)
  from delete_law [OF ok plain this] obtain fs' where
    fs': "delete_file F fs (plain_path ns @ ''/'' @ show_nat n) = Inr (fs', True)" "ok fs'"
      "content fs' = (content fs)(ns @ [show_nat n] := None)" "dir fs' = dir fs"
    by (auto simp: plain_path_snoc)
  then have "entity_path fs' ns" "collection fs' ns = (collection fs ns)(n := None)"
    using e by (auto simp: entity_path_def collection_def fun_eq_iff)
  with fs'(1) Some entity_exists(2) [OF e, of n] show ?thesis
    by (auto simp: crud_delete_def Let_def response_simps missing_body_def deleted_body_def)
qed

text \<open>Every request of a collection is a step of its contract.\<close>

lemma handle_refines:
  assumes e: "entity_path fs (ds @ [e])" and not_id: "\<not> list_all isdigit e" and a: "SLASH \<notin> set a"
    and range: "in_range h (collection fs (ds @ [e])) rop"
  shows "\<exists>fs' st res'. crud_handle_request F (slashed ds) fs (request_of a e h rop) res = Inr (fs', st, res') \<and>
    entity_path fs' (ds @ [e]) \<and>
    rest_step (plain_path (ds @ [e])) (collection fs (ds @ [e])) rop (collection fs' (ds @ [e]))
      (res_result res') (res_body res')"
proof -
  have pe: "plain_name e" using e by (simp add: entity_path_def)
  have inst: "''.'' @ slashed ds @ ''/'' @ e @ ''/'' @ show_nat n = plain_path (ds @ [e]) @ ''/'' @ show_nat n" for n
    using plain_path_slashed(2) [of ds e "show_nat n"] plain_path_snoc [of "ds @ [e]" "show_nat n"] by simp
  note dispatch = crud_dispatch [OF _ a, where F = F and data_path = "slashed ds" and fs = fs and res = res]
  have digits: "list_all isdigit (last_component (e @ ''/'' @ show_nat n))" for n
    by (simp only: last_component_instance list_all_show_nat)
  show ?thesis
  proof (cases rop)
    case (Create s)
    with range obtain n where n: "first_free (collection fs (ds @ [e])) n" "int n \<le> INT_MAX" by auto
    let ?req = "request_of a e h (Create s)"
    have "skip_headers (c_string (req_body ?req)) = Inr s" using range Create by simp
    from post_refines [OF e n this] obtain fs' where
      "crud_post F (plain_path (ds @ [e])) False fs ?req res =
        Inr (fs', True, json_response 201 (id_body n) (Some (length (id_body n))))"
      "entity_path fs' (ds @ [e])" "collection fs' (ds @ [e]) = (collection fs (ds @ [e]))(n \<mapsto> s)" by blast
    moreover have "crud_handle_request F (slashed ds) fs ?req res = crud_post F (plain_path (ds @ [e])) False fs ?req res"
      using dispatch [of ?req e] not_id
      by (simp add: last_component_entity [OF pe] Let_def plain_path_slashed(1) [simplified])
    ultimately show ?thesis
      using rest_step.create [OF n(1)] by (auto simp: Create json_response_def)
  next
    case (Read n)
    let ?req = "request_of a e h (Read n)"
    have "crud_handle_request F (slashed ds) fs ?req res = crud_get F (plain_path (ds @ [e]) @ ''/'' @ show_nat n) fs res"
      using dispatch [of ?req "e @ ''/'' @ show_nat n"] unfolding inst by simp
    then show ?thesis
      using get_refines [OF e, of n res] range e
      by (cases "collection fs (ds @ [e]) n") (auto simp: Read json_response_def intro: rest_step.read_hit rest_step.read_miss)
  next
    case (Replace n s)
    let ?req = "request_of a e h (Replace n s)"
    have "skip_headers (c_string (req_body ?req)) = Inr s" using range Replace by simp
    from put_refines [OF e this, of n res] obtain fs' res' where
      put: "crud_put F (plain_path (ds @ [e]) @ ''/'' @ show_nat n) True fs ?req res = Inr (fs', True, res')"
      and facts: "res_result res' = (if collection fs (ds @ [e]) n = None then 201 else 200)"
        "res_body res' = edited_body (plain_path (ds @ [e])) n" "entity_path fs' (ds @ [e])"
        "collection fs' (ds @ [e]) = (collection fs (ds @ [e]))(n \<mapsto> s)"
      by blast
    have "crud_handle_request F (slashed ds) fs ?req res = Inr (fs', True, res')"
      using dispatch [of ?req "e @ ''/'' @ show_nat n"] digits [of n] put unfolding inst by (simp add: Let_def)
    then show ?thesis
      using facts rest_step.replace [of "plain_path (ds @ [e])" "collection fs (ds @ [e])" n s]
      by (intro exI [of _ fs'] exI [of _ True] exI [of _ res']) (simp only: Replace simp_thms)
  next
    case (Remove n)
    let ?req = "request_of a e h (Remove n)" and ?m = "collection fs (ds @ [e])"
    from delete_refines [OF e, of n res] obtain fs' res' where
      del: "crud_delete F (plain_path (ds @ [e]) @ ''/'' @ show_nat n) True fs res = Inr (fs', ?m n \<noteq> None, res')"
      and facts: "entity_path fs' (ds @ [e])" "collection fs' (ds @ [e]) = ?m(n := None)"
        "?m n = None \<longrightarrow> res_result res' = 404 \<and> res_body res' = missing_body"
        "?m n \<noteq> None \<longrightarrow> res_result res' = 200 \<and> res_body res' = deleted_body (plain_path (ds @ [e])) n"
      by metis
    have "crud_handle_request F (slashed ds) fs ?req res = Inr (fs', ?m n \<noteq> None, res')"
      using dispatch [of ?req "e @ ''/'' @ show_nat n"] digits [of n] del unfolding inst by (simp add: Let_def)
    moreover have "rest_step (plain_path (ds @ [e])) ?m (Remove n) (?m(n := None)) (res_result res') (res_body res')"
    proof (cases "?m n = None")
      case True
      then have "?m(n := None) = ?m" by (auto simp: fun_eq_iff)
      with True facts(3) rest_step.remove_miss [of ?m n] show ?thesis by simp
    next
      case False
      with facts(4) rest_step.remove_hit [of ?m n] show ?thesis by simp
    qed
    ultimately show ?thesis
      using facts by (intro exI [of _ fs'] exI [of _ "?m n \<noteq> None"] exI [of _ res']) (simp only: Remove simp_thms)
  qed
qed

end

subsection \<open>Runs of requests\<close>

text \<open>
  The requests of one session, each handed the response object of the one before; and the runs
  of the contract, with the status and body of every answer.
\<close>

fun crud_run :: "'fs filesystem_interface \<Rightarrow> string \<Rightarrow> 'fs \<Rightarrow> http_response \<Rightarrow> http_request list \<Rightarrow>
    ('fs \<times> http_response list) result" where
  "crud_run F data_path fs res [] = Inr (fs, [])"
| "crud_run F data_path fs res (req # reqs) =
     bind_res (crud_handle_request F data_path fs req res) (\<lambda>(fs', st, res').
     bind_res (crud_run F data_path fs' res' reqs) (\<lambda>(fs'', out). Inr (fs'', res' # out)))"

inductive rest_run :: "string \<Rightarrow> store \<Rightarrow> rest_op list \<Rightarrow> store \<Rightarrow> (nat \<times> string) list \<Rightarrow> bool" for p where
  run_end: "rest_run p m [] m []"
| run_step: "rest_step p m rop m' st b \<Longrightarrow> rest_run p m' rops m'' out \<Longrightarrow> rest_run p m (rop # rops) m'' ((st, b) # out)"

fun carried :: "string \<Rightarrow> rest_op \<Rightarrow> bool" where
  "carried h (Create s) = (skip_headers (c_string (h @ BLANK_LINE @ s)) = Inr s)"
| "carried h (Read n) = (int n \<le> INT_MAX)"
| "carried h (Replace n s) = (skip_headers (c_string (h @ BLANK_LINE @ s)) = Inr s)"
| "carried h (Remove n) = True"

lemma first_free_exists:
  assumes "finite (dom m)"
  shows "\<exists>n. first_free m n \<and> n \<le> Suc (card (dom m))"
proof -
  have "\<not> {1..Suc (card (dom m))} \<subseteq> dom m"
  proof
    assume "{1..Suc (card (dom m))} \<subseteq> dom m"
    from card_mono [OF assms this] show False by simp
  qed
  then obtain k where "k \<in> {1..Suc (card (dom m))}" "k \<notin> dom m" by blast
  then have k: "1 \<le> k \<and> m k = None" "k \<le> Suc (card (dom m))" by auto
  let ?n = "LEAST k. 1 \<le> k \<and> m k = None"
  have "1 \<le> ?n \<and> m ?n = None" using k(1) by (rule LeastI)
  moreover have "?n \<le> k" using k(1) by (rule Least_le)
  moreover have "m i \<noteq> None" if "1 \<le> i" "i < ?n" for i using not_less_Least [OF that(2)] that(1) by simp
  ultimately show ?thesis using k(2) unfolding first_free_def by (meson order_trans)
qed

lemma carried_in_range:
  assumes "carried h rop" and "finite (dom m)" and "int (Suc (card (dom m))) \<le> INT_MAX"
  shows "in_range h m rop"
proof (cases rop)
  case (Create s)
  from first_free_exists [OF assms(2)] obtain n where "first_free m n" "n \<le> Suc (card (dom m))" by blast
  with assms(3) have "first_free m n \<and> int n \<le> INT_MAX" by linarith
  with assms(1) Create show ?thesis by auto
qed (use assms(1) in simp_all)

lemma rest_step_dom:
  assumes "rest_step p m rop m' st b" and "finite (dom m)"
  shows "finite (dom m') \<and> card (dom m') \<le> Suc (card (dom m))"
proof -
  have "dom m' \<subseteq> insert n (dom m) \<Longrightarrow> ?thesis" for n
  proof -
    assume sub: "dom m' \<subseteq> insert n (dom m)"
    have "finite (dom m')" using sub assms(2) by (simp add: finite_subset)
    moreover have "card (dom m') \<le> card (insert n (dom m))" using sub assms(2) by (intro card_mono) auto
    ultimately show ?thesis using card_insert_le_m1 [of "Suc (card (dom m))" "dom m" n] by simp
  qed
  note sub = this
  show ?thesis using assms(1)
  proof cases
    case (create n s)
    then show ?thesis by (intro sub [of n]) auto
  next
    case (replace n s)
    then show ?thesis by (intro sub [of n]) auto
  next
    case (remove_hit n)
    then show ?thesis by (intro sub [of n]) auto
  qed (use assms(2) in simp_all)
qed

context filesystem_contract
begin

lemma run_refines:
  assumes "entity_path fs (ds @ [e])" and "\<not> list_all isdigit e" and "SLASH \<notin> set a"
    and "list_all (carried h) rops" and "finite (dom (collection fs (ds @ [e])))"
    and "int (card (dom (collection fs (ds @ [e])))) + int (length rops) \<le> INT_MAX"
  shows "\<exists>fs' out. crud_run F (slashed ds) fs res (map (request_of a e h) rops) = Inr (fs', out) \<and>
    entity_path fs' (ds @ [e]) \<and>
    rest_run (plain_path (ds @ [e])) (collection fs (ds @ [e])) rops (collection fs' (ds @ [e]))
      (map (\<lambda>r. (res_result r, res_body r)) out)"
  using assms
proof (induction rops arbitrary: fs res)
  case Nil
  then show ?case by (auto intro: rest_run.run_end)
next
  case (Cons rop rops)
  let ?m = "\<lambda>fs. collection fs (ds @ [e])"
  have "in_range h (?m fs) rop"
    using Cons.prems by (intro carried_in_range) simp_all
  from handle_refines [OF Cons.prems(1-3) this, of res] obtain fs1 st res1 where
    h: "crud_handle_request F (slashed ds) fs (request_of a e h rop) res = Inr (fs1, st, res1)"
    and e1: "entity_path fs1 (ds @ [e])"
    and step: "rest_step (plain_path (ds @ [e])) (?m fs) rop (?m fs1) (res_result res1) (res_body res1)"
    by blast
  have d: "finite (dom (?m fs1))" "card (dom (?m fs1)) \<le> Suc (card (dom (?m fs)))"
    using rest_step_dom [OF step Cons.prems(5)] by simp_all
  have "int (card (dom (?m fs1))) + int (length rops) \<le> INT_MAX"
    using d(2) Cons.prems(6) by simp
  from Cons.IH [OF e1 Cons.prems(2,3) _ d(1) this, of res1] Cons.prems(4)
  obtain fs2 out where r: "crud_run F (slashed ds) fs1 res1 (map (request_of a e h) rops) = Inr (fs2, out)"
    "entity_path fs2 (ds @ [e])"
    "rest_run (plain_path (ds @ [e])) (?m fs1) rops (?m fs2) (map (\<lambda>r. (res_result r, res_body r)) out)"
    by auto
  have "crud_run F (slashed ds) fs res (map (request_of a e h) (rop # rops)) = Inr (fs2, res1 # out)"
    using h r(1) by simp
  moreover have "rest_run (plain_path (ds @ [e])) (?m fs) (rop # rops) (?m fs2)
      (map (\<lambda>r. (res_result r, res_body r)) (res1 # out))"
    using rest_run.run_step [OF step r(3)] by simp
  ultimately show ?case using r(2) by blast
qed

end

text \<open>The numbered files of a directory of the real file system are finitely many.\<close>

lemma real_collection_finite: "finite (dom (rf.collection fs ns))"
proof -
  have "inj show_nat" by (simp add: inj_def)
  obtain N where N: "finite N" "\<And>n. lookup (fs_root fs) ((fs_cwd fs @ ns) @ [n]) \<noteq> None \<Longrightarrow> n \<in> N"
  proof (cases "is_dir (fs_root fs) (fs_cwd fs @ ns)")
    case True
    then obtain es where "lookup (fs_root fs) (fs_cwd fs @ ns) = Some (Dir es)" by (auto simp: is_dir_lookup)
    then have "lookup (fs_root fs) ((fs_cwd fs @ ns) @ [n]) = map_of es n" for n
      by (simp only: lookup_append option.case lookup.simps split: option.split) simp
    then show thesis using that [of "fst ` set es"] by (simp add: map_of_eq_None_iff)
  next
    case False
    then show thesis using that [of "{}"] parent_is_dir by blast
  qed
  have "dom (rf.collection fs ns) \<subseteq> show_nat -` N"
  proof
    fix n assume "n \<in> dom (rf.collection fs ns)"
    then have "file_at (fs_root fs) ((fs_cwd fs @ ns) @ [show_nat n]) \<noteq> None"
      by (auto simp: rf.collection_def real_content_def)
    then have "lookup (fs_root fs) ((fs_cwd fs @ ns) @ [show_nat n]) \<noteq> None"
      using lookup_cases by metis
    with N(2) show "n \<in> show_nat -` N" by blast
  qed
  moreover have "finite (show_nat -` N)" using \<open>inj show_nat\<close> N(1) by (intro finite_vimageI) simp_all
  ultimately show ?thesis by (rule finite_subset)
qed

subsection \<open>The CRUD service on the real file system\<close>

lemma sample_collection: "rf.collection sample_fs [''data'', ''Shoes''] = [1 \<mapsto> ''{}'']"
proof
  fix n
  have "(show_nat n = ''1'') = (n = 1)" using show_nat_inject [of n 1] show_nat_1 by metis
  then show "rf.collection sample_fs [''data'', ''Shoes''] n = [1 \<mapsto> ''{}''] n"
    by (simp add: rf.collection_def real_content_def sample_fs_def file_at_def)
qed

lemma sample_entity_path: "rf.entity_path sample_fs ([''data''] @ [''Shoes''])"
proof -
  have "real_content sample_fs (take i [''data'', ''Shoes'']) = None" if "i \<le> 2" for i
    using that by (cases i; cases "i - 1") (simp_all add: sample_fs_def real_content_def file_at_def)
  moreover have "\<not> real_dir sample_fs ([''data'', ''Shoes''] @ [show_nat n])" for n
    by (simp add: sample_fs_def real_dir_def is_dir_def)
  moreover have "real_ok sample_fs" "list_all plain_name [''data'', ''Shoes'']" by code_simp+
  ultimately show ?thesis by (simp add: rf.entity_path_def)
qed

lemma sample_facts:
  "\<not> list_all isdigit ''Shoes''" "SLASH \<notin> set ''api''" "carried ''x'' (Create ''{a}'')"
  "skip_headers (c_string (''x'' @ BLANK_LINE @ ''{a}'')) = Inr ''{a}''" "slashed [''data''] = ''/data''"
  by code_simp+

text \<open>
  C5: The CRUD service implements its contract.  From an entity path no file blocks, any
  sequence of creations, reads, replacements and removals is answered, request by request, as
  the abstract map from numbers to contents prescribes: a creation takes the first free number
  and answers it with 201, a read gives the stored bytes or 404, a replacement answers 201 or
  200 as the number was free or not, a removal 200 or 404; and the files at the end are the map
  at the end.
\<close>

theorem crud_run_refines:
  assumes "rf.entity_path fs (ds @ [e])" and "\<not> list_all isdigit e" and "SLASH \<notin> set a"
    and "list_all (carried h) rops"
    and "int (card (dom (rf.collection fs (ds @ [e])))) + int (length rops) \<le> INT_MAX"
  shows "\<exists>fs' out. crud_run real_filesystem (slashed ds) fs res (map (request_of a e h) rops) = Inr (fs', out) \<and>
    rest_run (plain_path (ds @ [e])) (rf.collection fs (ds @ [e])) rops (rf.collection fs' (ds @ [e]))
      (map (\<lambda>r. (res_result r, res_body r)) out)"
  using rf.run_refines [OF assms(1-4) real_collection_finite assms(5), of res] by blast

theorem crud_run_refines_witness:
  "\<exists>fs' out. crud_run real_filesystem ''/data'' sample_fs empty_response
      (map (request_of ''api'' ''Shoes'' ''x'') [Create ''{a}'', Read 2, Remove 2]) = Inr (fs', out) \<and>
    rest_run (plain_path [''data'', ''Shoes'']) [1 \<mapsto> ''{}''] [Create ''{a}'', Read 2, Remove 2]
      (rf.collection fs' [''data'', ''Shoes'']) (map (\<lambda>r. (res_result r, res_body r)) out)"
proof -
  have "list_all (carried ''x'') [Create ''{a}'', Read 2, Remove 2]"
    using sample_facts(3) by (simp add: INT_MAX_def del: carried.simps(1))
  moreover have "int (card (dom (rf.collection sample_fs ([''data''] @ [''Shoes''])))) + int (length [Create ''{a}'', Read 2, Remove 2]) \<le> INT_MAX"
    by (simp add: sample_collection INT_MAX_def)
  ultimately show ?thesis
    using crud_run_refines [OF sample_entity_path sample_facts(1,2), of "''x''" "[Create ''{a}'', Read 2, Remove 2]" empty_response]
    unfolding sample_facts(5) by (simp only: append_Cons append_Nil sample_collection)
qed

text \<open>
  What was posted is read back.  A POST to an entity answers 201 and \<open>{"id": n}\<close> for a number
  that was free, and from then on, whatever response object the session holds, a GET of that
  number answers 200 with exactly the bytes posted and their length.
\<close>

lemma crud_post_then_get:
  assumes "rf.entity_path fs (ds @ [e])" and "\<not> list_all isdigit e" and "SLASH \<notin> set a"
    and "skip_headers (c_string (h @ BLANK_LINE @ s)) = Inr s"
    and "first_free (rf.collection fs (ds @ [e])) n" and "int n \<le> INT_MAX"
  shows "\<exists>fs'. crud_handle_request real_filesystem (slashed ds) fs (request_of a e h (Create s)) res =
      Inr (fs', True, json_response 201 (id_body n) (Some (length (id_body n)))) \<and>
    (\<forall>res' h'. crud_handle_request real_filesystem (slashed ds) fs' (request_of a e h' (Read n)) res' =
      Inr (fs', True, json_response 200 s (Some (length s))))"
proof -
  have pe: "plain_name e" using assms(1) by (simp add: rf.entity_path_def)
  have "skip_headers (c_string (req_body (request_of a e h (Create s)))) = Inr s" using assms(4) by simp
  from rf.post_refines [OF assms(1,5,6) this, of res] obtain fs' where
    post: "crud_post real_filesystem (plain_path (ds @ [e])) False fs (request_of a e h (Create s)) res =
      Inr (fs', True, json_response 201 (id_body n) (Some (length (id_body n))))"
    and e': "rf.entity_path fs' (ds @ [e])" "rf.collection fs' (ds @ [e]) = (rf.collection fs (ds @ [e]))(n \<mapsto> s)"
    by blast
  have "crud_handle_request real_filesystem (slashed ds) fs (request_of a e h (Create s)) res =
      crud_post real_filesystem (plain_path (ds @ [e])) False fs (request_of a e h (Create s)) res"
    using crud_dispatch [of "request_of a e h (Create s)" a e real_filesystem "slashed ds" fs res] assms(2,3)
    by (simp add: last_component_entity [OF pe] Let_def plain_path_slashed(1) [simplified])
  moreover have "crud_handle_request real_filesystem (slashed ds) fs' (request_of a e h' (Read n)) res' =
      Inr (fs', True, json_response 200 s (Some (length s)))" for res' h'
    using crud_dispatch [of "request_of a e h' (Read n)" a "e @ ''/'' @ show_nat n" real_filesystem "slashed ds" fs' res'] assms(3)
      rf.get_refines [OF e'(1) assms(6), of res'] plain_path_slashed(2) [of ds e "show_nat n"]
      plain_path_snoc [of "ds @ [e]" "show_nat n"] e'(2) by simp
  ultimately show ?thesis using post by auto
qed

lemma real_delete_false: "real_delete_file fs p = Inr (fs', False) \<Longrightarrow> fs' = fs"
  by (auto simp: real_delete_file_def Let_def split: if_splits walk_result.splits option.splits node.splits)

text \<open>
  C23: A request that fails leaves the files alone: whatever the request and the data path, when
  the handler reports \<open>false\<close> the file system is the one it was called with.
\<close>

theorem crud_failure_keeps_files:
  assumes "crud_handle_request real_filesystem data_path fs req res = Inr (fs', False, res')"
  shows "fs' = fs"
  using assms
  by (auto simp: crud_handle_request_def crud_post_def crud_get_def crud_delete_def crud_put_def Let_def
      bind_res_eq_Inr split: option.splits verb.splits if_splits prod.splits dest: real_delete_false)

theorem crud_failure_keeps_files_witness:
  "fst (projr (crud_handle_request real_filesystem ''/data'' sample_fs
     (request_of ''api'' ''Shoes'' ''x'' (Remove 7)) empty_response)) = sample_fs"
proof -
  have h: "\<exists>fs' res'. crud_handle_request real_filesystem ''/data'' sample_fs
      (request_of ''api'' ''Shoes'' ''x'' (Remove 7)) empty_response = Inr (fs', False, res')"
    by (rule exI [of _ sample_fs], rule exI [of _ "json_response 404 missing_body (Some 0)"]) code_simp
  then obtain fs' res' where "crud_handle_request real_filesystem ''/data'' sample_fs
      (request_of ''api'' ''Shoes'' ''x'' (Remove 7)) empty_response = Inr (fs', False, res')" by blast
  from crud_failure_keeps_files [OF this] this show ?thesis by simp
qed

text \<open>The names of a listing between commas.\<close>

fun comma_join :: "string list \<Rightarrow> string" where
  "comma_join [] = []"
| "comma_join [e] = e"
| "comma_join (e # es) = e @ '', '' @ comma_join es"

lemma string_vector_to_json_join: "string_vector_to_json es = ''['' @ comma_join es @ '']''"
proof -
  have "string_vector_to_json_loop acc es = acc @ comma_join es" for acc
  proof (induction es arbitrary: acc)
    case (Cons e es)
    note IH = Cons.IH
    show ?case
    proof (cases es)
      case (Cons v va)
      then have "string_vector_to_json_loop acc (e # es) = string_vector_to_json_loop (acc @ e @ '', '') es"
        by simp
      then show ?thesis using IH [of "acc @ e @ '', ''"] Cons by simp
    qed simp
  qed simp
  then show ?thesis by (simp add: string_vector_to_json_def)
qed

text \<open>
  A GET of an entity lists its instances.  When the name is no number and the directory
  exists, the answer is 200 with the names of its entries between brackets, each entry exactly
  of the directory; the Content-Length of the response object is left as it was.
\<close>

lemma crud_get_lists:
  assumes "real_ok fs" and "list_all plain_name (ds @ [e])" and "real_dir fs (ds @ [e])"
    and "stoi e = None" and "SLASH \<notin> set a"
  shows "\<exists>names. crud_handle_request real_filesystem (slashed ds) fs
      \<lparr>req_method = verb_get, req_target = SLASH # a @ SLASH # e, req_body = b\<rparr> res =
      Inr (fs, True, json_response 200 (''['' @ comma_join names @ '']'' @ [LF]) (res_content_length res)) \<and>
    (\<forall>n. n \<in> set names \<longleftrightarrow> real_content fs (ds @ [e, n]) \<noteq> None \<or> real_dir fs (ds @ [e, n]))"
proof -
  let ?req = "\<lparr>req_method = verb_get, req_target = SLASH # a @ SLASH # e, req_body = b\<rparr>"
  let ?p = "plain_path (ds @ [e])"
  have pe: "plain_name e" using assms(2) by simp
  from rf.list_law [OF assms(1-3)] obtain names where
    names: "list_files real_filesystem fs ?p = Inr names"
      "\<forall>n. n \<in> set names \<longleftrightarrow> real_content fs ((ds @ [e]) @ [n]) \<noteq> None \<or> real_dir fs ((ds @ [e]) @ [n])"
    by blast
  have ex: "file_exists real_filesystem fs ?p = Inr True" using rf.exists_law [OF assms(1,2)] assms(3) by simp
  have ep: "drop (pos_plus (find_last_of SLASH ?p) 1) ?p = e"
    unfolding plain_path_slashed(1) [symmetric] crud_get_endpoint by (rule last_component_entity [OF pe])
  have "crud_handle_request real_filesystem (slashed ds) fs ?req res = crud_get real_filesystem ?p fs res"
    using crud_dispatch [of ?req a e real_filesystem "slashed ds" fs res] assms(5)
    by (simp add: Let_def plain_path_slashed(1) [simplified])
  also have "\<dots> = Inr (fs, True, json_response 200 (string_vector_to_json names @ [LF]) (res_content_length res))"
    unfolding crud_get_def ep Let_def using assms(4) ex names(1)
    by (simp add: response_simps json_response_def)
  finally show ?thesis using names(2) by (auto simp: string_vector_to_json_join)
qed



text \<open>A body without a blank line loses three bytes, or the handler throws.\<close>

lemma skip_headers_no_blank:
  "find_str BLANK_LINE s = None \<Longrightarrow> skip_headers s = (if 3 \<le> length s then Inr (drop 3 s) else Inl Out_Of_Range)"
  by (simp add: skip_headers_def substr_from_def)

text \<open>
  A replacement whose bytes hold no blank line is not rejected: \<open>find\<close> returns \<open>npos\<close>, adding 4
  wraps around to 3, and what is stored is the text without its first three bytes; a shorter
  text makes \<open>substr\<close> throw, which nothing catches.
\<close>

lemma crud_put_without_blank_line:
  assumes "rf.entity_path fs (ds @ [e])" and "SLASH \<notin> set a"
    and "find_str BLANK_LINE (c_string b) = None"
  shows "(case crud_handle_request real_filesystem (slashed ds) fs
      \<lparr>req_method = verb_put, req_target = SLASH # a @ SLASH # e @ ''/'' @ show_nat n, req_body = b\<rparr> res of
     Inl err \<Rightarrow> err = Out_Of_Range \<and> length (c_string b) < 3
   | Inr (fs', st, res') \<Rightarrow> st \<and> rf.collection fs' (ds @ [e]) = (rf.collection fs (ds @ [e]))(n \<mapsto> drop 3 (c_string b)))"
proof -
  let ?req = "\<lparr>req_method = verb_put, req_target = SLASH # a @ SLASH # e @ ''/'' @ show_nat n, req_body = b\<rparr>"
  have inst: "''.'' @ slashed ds @ ''/'' @ e @ ''/'' @ show_nat n = plain_path (ds @ [e]) @ ''/'' @ show_nat n"
    using plain_path_slashed(2) [of ds e "show_nat n"] plain_path_snoc [of "ds @ [e]" "show_nat n"] by simp
  have digits: "list_all isdigit (last_component (e @ ''/'' @ show_nat n))"
    by (simp only: last_component_instance list_all_show_nat)
  have put: "crud_handle_request real_filesystem (slashed ds) fs ?req res =
      crud_put real_filesystem (plain_path (ds @ [e]) @ ''/'' @ show_nat n) True fs ?req res"
    using crud_dispatch [of ?req a "e @ ''/'' @ show_nat n" real_filesystem "slashed ds" fs res] assms(2) digits
    unfolding inst by (simp add: Let_def)
  show ?thesis
  proof (cases "3 \<le> length (c_string b)")
    case True
    then have "skip_headers (c_string (req_body ?req)) = Inr (drop 3 (c_string b))"
      using skip_headers_no_blank [OF assms(3)] by simp
    from rf.put_refines [OF assms(1) this, of n res] show ?thesis unfolding put by auto
  next
    case False
    then have "skip_headers (c_string b) = Inl Out_Of_Range" using skip_headers_no_blank [OF assms(3)] by simp
    with False show ?thesis unfolding put by (simp add: crud_put_def)
  qed
qed

lemma resolve_dotdot:
  assumes "real_ok fs" and "list_all plain_name [d, x]" and "real_dir fs [d]"
    and "real_content fs [x, show_nat n] = Some s"
  shows "resolve fs (''.'' @ (SLASH # d) @ ''/'' @ ''../'' @ x @ ''/'' @ show_nat n) = Found (fs_cwd fs @ [x, show_nat n]) \<and>
    lookup (fs_root fs) (fs_cwd fs @ [x, show_nat n]) = Some (File s)"
proof -
  let ?t = "fs_root fs" and ?cwd = "fs_cwd fs" and ?p = "''.'' @ (SLASH # d) @ ''/'' @ ''../'' @ x @ ''/'' @ show_nat n"
  have d: "SLASH \<notin> set d" "d \<noteq> []" "d \<noteq> ''.''" "d \<noteq> ''..''" and x: "SLASH \<notin> set x" "x \<noteq> []" "x \<noteq> ''.''" "x \<noteq> ''..''"
    using assms(2) by (simp_all add: plain_name_def)
  have n: "SLASH \<notin> set (show_nat n)" "show_nat n \<noteq> ''.''" "show_nat n \<noteq> ''..''"
    using plain_name_show_nat [of n] by (simp_all add: plain_name_def)
  have "segments ?p = [''.'', d, ''..'', x, show_nat n]"
    using segments_slash [of "''.''"] segments_slash [OF d(1)] segments_slash [of "''..''"] segments_slash [OF x(1)]
      segments_no_slash [OF n(1)] by simp
  then have comps: "path_comps ?p = [''.'', d, ''..'', x, show_nat n]" using d(2) x(2) by (simp add: path_comps_def)
  obtain es where cwd: "lookup ?t ?cwd = Some (Dir es)" using assms(1) by (auto simp: real_ok_def is_dir_lookup)
  obtain ed where dd: "lookup ?t (?cwd @ [d]) = Some (Dir ed)" using assms(3) by (auto simp: real_dir_def is_dir_lookup)
  have leaf: "lookup ?t (?cwd @ [x, show_nat n]) = Some (File s)"
    using assms(4) by (auto simp: real_content_def file_at_def split: option.splits node.splits)
  have "is_dir ?t (?cwd @ [x])" using parent_is_dir [of ?t "?cwd @ [x]" "show_nat n" "[]"] leaf by simp
  then obtain ex where xx: "lookup ?t (?cwd @ [x]) = Some (Dir ex)" by (auto simp: is_dir_lookup)
  have "map_of es d \<noteq> None" "map_of es x \<noteq> None" "map_of ex (show_nat n) \<noteq> None"
    using dd xx leaf cwd lookup_append [of ?t "?cwd @ [x]" "[show_nat n]"]
    by (auto simp: lookup_append split: option.splits)
  then have w: "walk ?t ?cwd (path_comps ?p) = Found (?cwd @ [x, show_nat n])"
    unfolding comps using cwd dd xx d x n by (auto split: option.splits)
  have "last ?p = last (show_nat n)" by simp
  then have "last ?p \<noteq> SLASH" using n(1) last_in_set [of "show_nat n"] by (metis show_nat_nonempty)
  then have "\<not> trailing_slash ?p" by (simp only: trailing_slash_def) simp
  moreover have "start_dir fs ?p = ?cwd" by (simp add: start_dir_def absolute_def)
  ultimately show ?thesis unfolding resolve_def using w leaf by simp
qed

text \<open>
  C36: The data path is no boundary.  The URI is appended to it unchecked, so a GET through
  \<open>..\<close> answers with the content of a numbered file outside the data directory.
\<close>

theorem crud_path_traversal:
  assumes "real_ok fs" and "list_all plain_name [d, x]" and "real_dir fs [d]" and "SLASH \<notin> set a"
    and "real_content fs [x, show_nat n] = Some s" and "int n \<le> INT_MAX"
  shows "crud_handle_request real_filesystem (SLASH # d) fs
      \<lparr>req_method = verb_get, req_target = SLASH # a @ SLASH # ''../'' @ x @ ''/'' @ show_nat n, req_body = b\<rparr> res =
    Inr (fs, True, json_response 200 s (Some (length s)))"
proof -
  let ?sfx = "''../'' @ x @ ''/'' @ show_nat n"
  let ?p = "''.'' @ (SLASH # d) @ ''/'' @ ?sfx"
  have r: "resolve fs ?p = Found (fs_cwd fs @ [x, show_nat n])"
    and leaf: "lookup (fs_root fs) (fs_cwd fs @ [x, show_nat n]) = Some (File s)"
    using resolve_dotdot [OF assms(1-3,5)] by blast+
  have ex: "file_exists real_filesystem fs ?p = Inr True" using r by (simp add: real_file_exists_def)
  have rd: "read_file real_filesystem fs ?p [] = Inr (s, True)"
    using r leaf by (simp add: real_read_file_def read_loop_append)
  have "last_component ?sfx = show_nat n"
    using last_component_instance [of "''../'' @ x" n] by simp
  then have ep: "drop (pos_plus (find_last_of SLASH ?p) 1) ?p = show_nat n"
    using crud_get_endpoint [of "SLASH # d" ?sfx] by simp
  have "crud_handle_request real_filesystem (SLASH # d) fs
      \<lparr>req_method = verb_get, req_target = SLASH # a @ SLASH # ?sfx, req_body = b\<rparr> res = crud_get real_filesystem ?p fs res"
    using crud_dispatch [of "\<lparr>req_method = verb_get, req_target = SLASH # a @ SLASH # ?sfx, req_body = b\<rparr>" a ?sfx real_filesystem "SLASH # d" fs res]
      assms(4) by (simp add: Let_def)
  also have "\<dots> = Inr (fs, True, json_response 200 s (Some (length s)))"
    unfolding crud_get_def ep Let_def ex rd using assms(6)
    by (simp add: stoi_show_nat response_simps json_response_def)
  finally show ?thesis .
qed

theorem crud_path_traversal_witness:
  "crud_handle_request real_filesystem ''/data''
     \<lparr>fs_root = Dir [(''data'', Dir []), (''secret'', Dir [(''1'', File ''key'')])], fs_cwd = []\<rparr>
     \<lparr>req_method = verb_get, req_target = ''/api/../secret/1'', req_body = []\<rparr> empty_response =
   Inr (\<lparr>fs_root = Dir [(''data'', Dir []), (''secret'', Dir [(''1'', File ''key'')])], fs_cwd = []\<rparr>, True,
     json_response 200 ''key'' (Some 3))"
proof -
  let ?fs = "\<lparr>fs_root = Dir [(''data'', Dir []), (''secret'', Dir [(''1'', File ''key'')])], fs_cwd = []\<rparr>"
  have "real_ok ?fs" "list_all plain_name [''data'', ''secret'']" "real_dir ?fs [''data'']" by code_simp+
  moreover have "real_content ?fs [''secret'', show_nat 1] = Some ''key''" unfolding show_nat_1 by code_simp
  moreover have "int 1 \<le> INT_MAX" by (simp add: INT_MAX_def)
  ultimately show ?thesis
    using crud_path_traversal [OF _ _ _ sample_facts(2), of ?fs "''data''" "''secret''" 1 "''key''" "[]" empty_response]
    by (simp add: show_nat_1 [simplified] numeral_eq_Suc)
qed

end
