(* ===== verification/Markdown_Handler.thy ===== *)
theory Markdown_Handler
  imports Handlers
begin

section \<open>The Markdown handler\<close>

text \<open>
  src/markdown\_request\_handler.cc: finds the Markdown file of the URI, rewrites its lines to
  HTML into a temporary file next to it and answers with what that file holds.  The three
  inline rewritings are loops that replace one pair of markers after the other.
\<close>

subsection \<open>Inline markup\<close>

text \<open>\<open>s.replace(i, n, r)\<close>\<close>

definition replace_at :: "string \<Rightarrow> nat \<Rightarrow> nat \<Rightarrow> string \<Rightarrow> string" where
  "replace_at s i n r = take i s @ r @ drop (i + n) s"

text \<open>
  One turn of a loop: the first two markers become the opening and the closing tag.  \<open>None\<close>
  where the code breaks and drops the line it had begun to change.
\<close>

definition wrap_pair :: "string \<Rightarrow> string \<Rightarrow> string \<Rightarrow> string \<Rightarrow> string option" where
  "wrap_pair marker open_tag close_tag line =
     (case find_str marker line of
        None \<Rightarrow> None
      | Some idx \<Rightarrow>
          (let new_line = replace_at line idx (length marker) open_tag in
           case find_str marker new_line of
             None \<Rightarrow> None
           | Some idx \<Rightarrow> Some (replace_at new_line idx (length marker) close_tag)))"

definition bold_step :: "string \<Rightarrow> string option" where
  "bold_step line =
     (if find_str ''**'' line \<noteq> None then wrap_pair ''**'' ''<strong>'' ''</strong>'' line
      else if find_str ''__'' line \<noteq> None then wrap_pair ''__'' ''<strong>'' ''</strong>'' line
      else None)"

definition italics_step :: "string \<Rightarrow> string option" where
  "italics_step line =
     (if find_str ''*'' line \<noteq> None then wrap_pair ''*'' ''<em>'' ''</em>'' line
      else if find_str ''_'' line \<noteq> None then wrap_pair ''_'' ''<em>'' ''</em>'' line
      else None)"

definition code_step :: "string \<Rightarrow> string option" where
  "code_step line =
     (if find_str ''`'' line \<noteq> None \<and> find_str ''```'' line = None
      then wrap_pair ''`'' ''<code>'' ''</code>'' line
      else None)"

text \<open>The markers left in a line, which every turn makes fewer.\<close>

definition marks :: "string \<Rightarrow> nat" where
  "marks s = length (filter (\<lambda>c. c \<in> {CHR ''*'', CHR ''_'', CHR ''`''}) s)"

lemma marks_append [simp]: "marks (s @ t) = marks s + marks t"
  by (simp add: marks_def)

lemma replace_at_found:
  assumes "find_str m s = Some i"
  shows "\<exists>a b. s = a @ m @ b \<and> replace_at s i (length m) r = a @ r @ b"
proof -
  from find_str_SomeD [OF assms] obtain a b where "s = a @ m @ b" "length a = i" by blast
  then show ?thesis by (auto simp: replace_at_def)
qed

lemma wrap_pairD:
  assumes "wrap_pair m open_tag close_tag line = Some line'"
  shows "\<exists>a b c d. line = a @ m @ b \<and> a @ open_tag @ b = c @ m @ d \<and> line' = c @ close_tag @ d"
proof -
  from assms obtain i j where i: "find_str m line = Some i"
    and j: "find_str m (replace_at line i (length m) open_tag) = Some j"
    and l: "line' = replace_at (replace_at line i (length m) open_tag) j (length m) close_tag"
    by (auto simp: wrap_pair_def Let_def split: option.splits)
  from replace_at_found [OF i, where r = open_tag] obtain a b where
    ab: "line = a @ m @ b" "replace_at line i (length m) open_tag = a @ open_tag @ b" by blast
  from replace_at_found [OF j, where r = close_tag] l obtain c d where
    "replace_at line i (length m) open_tag = c @ m @ d" "line' = c @ close_tag @ d" by auto
  with ab show ?thesis by metis
qed

lemma wrap_pair_marks:
  assumes "wrap_pair m open_tag close_tag line = Some line'"
    and "marks open_tag = 0" and "marks close_tag = 0" and "0 < marks m"
  shows "marks line' < marks line"
proof -
  from wrap_pairD [OF assms(1)] obtain a b c d where
    l: "line = a @ m @ b" "line' = c @ close_tag @ d" and e: "a @ open_tag @ b = c @ m @ d" by blast
  from arg_cong [OF e, of marks] show ?thesis using assms(2-4) l by simp
qed

lemma marks_tags:
  "marks ''<strong>'' = 0" "marks ''</strong>'' = 0" "marks ''<em>'' = 0" "marks ''</em>'' = 0"
  "marks ''<code>'' = 0" "marks ''</code>'' = 0"
  "0 < marks ''**''" "0 < marks ''__''" "0 < marks ''*''" "0 < marks ''_''" "0 < marks ''`''"
  by code_simp+

lemma step_marks:
  "bold_step line = Some line' \<Longrightarrow> marks line' < marks line"
  "italics_step line = Some line' \<Longrightarrow> marks line' < marks line"
  "code_step line = Some line' \<Longrightarrow> marks line' < marks line"
  unfolding bold_step_def italics_step_def code_step_def
  by (auto split: if_splits dest!: wrap_pair_marks simp: marks_tags)

function bold_loop :: "string \<Rightarrow> string" where
  "bold_loop line = (case bold_step line of None \<Rightarrow> line | Some line' \<Rightarrow> bold_loop line')"
  by pat_completeness auto

termination
  by (relation "measure marks") (simp_all add: step_marks)

function italics_loop :: "string \<Rightarrow> string" where
  "italics_loop line = (case italics_step line of None \<Rightarrow> line | Some line' \<Rightarrow> italics_loop line')"
  by pat_completeness auto

termination
  by (relation "measure marks") (simp_all add: step_marks)

function code_loop :: "string \<Rightarrow> string" where
  "code_loop line = (case code_step line of None \<Rightarrow> line | Some line' \<Rightarrow> code_loop line')"
  by pat_completeness auto

termination
  by (relation "measure marks") (simp_all add: step_marks)

declare bold_loop.simps [simp del] italics_loop.simps [simp del] code_loop.simps [simp del]

definition inline_markup :: "string \<Rightarrow> string" where
  "inline_markup line = code_loop (italics_loop (bold_loop line))"

subsection \<open>Blocks\<close>

definition PRE :: string where
  "PRE = '' style='' @ [DQUOTE] @ ''white-space: pre'' @ [DQUOTE] @ ''>''"

text \<open>What one line writes to the HTML file, and whether a code block is open afterwards.\<close>

definition render_block :: "bool \<Rightarrow> string \<Rightarrow> bool \<times> string" where
  "render_block inside_code_snippet line =
     (if length line \<ge> 4 \<and> take 3 line = ''###'' \<and> line ! 3 = SP then
        (inside_code_snippet, ''<h3'' @ PRE @ drop 4 line @ ''</h3>'' @ [LF])
      else if length line \<ge> 3 \<and> take 2 line = ''##'' \<and> line ! 2 = SP then
        (inside_code_snippet, ''<h2'' @ PRE @ drop 3 line @ ''</h2>'' @ [LF])
      else if length line \<ge> 2 \<and> take 1 line = ''#'' \<and> line ! 1 = SP then
        (inside_code_snippet, ''<h1'' @ PRE @ drop 2 line @ ''</h1>'' @ [LF])
      else if length line \<ge> 3 \<and> take 3 line = ''```'' then
        (if inside_code_snippet then (\<not> inside_code_snippet, ''</code></p>'' @ [LF])
         else (\<not> inside_code_snippet, ''<p'' @ PRE @ ''<code>''))
      else (inside_code_snippet, ''<p'' @ PRE @ line @ ''</p>'' @ [LF]))"

fun render_lines :: "bool \<Rightarrow> string list \<Rightarrow> string" where
  "render_lines inside_code_snippet [] = []"
| "render_lines inside_code_snippet (line # lines) =
     (case render_block inside_code_snippet (inline_markup line) of
        (inside_code_snippet, html) \<Rightarrow> html @ render_lines inside_code_snippet lines)"

subsection \<open>Files\<close>

text \<open>\<open>while (std::getline(file, line)) lines.push_back(line)\<close>\<close>

function read_lines :: "string \<Rightarrow> string list" where
  "read_lines s =
     (if s = [] then []
      else takeWhile (\<lambda>c. c \<noteq> LF) s # read_lines (tl (dropWhile (\<lambda>c. c \<noteq> LF) s)))"
  by pat_completeness auto

termination
  by (relation "measure length") (simp_all add: length_tl_dropWhile del: length_tl)

declare read_lines.simps [simp del]

text \<open>\<open>std::remove\<close>; \<open>None\<close> when it fails.\<close>

definition c_remove :: "real_fs \<Rightarrow> string \<Rightarrow> real_fs option" where
  "c_remove fs p = (case real_delete_file fs p of Inr (fs', True) \<Rightarrow> Some fs' | _ \<Rightarrow> None)"

text \<open>An output stream opened with \<open>std::ios_base::app\<close>.\<close>

definition append_file :: "real_fs \<Rightarrow> string \<Rightarrow> string \<Rightarrow> real_fs" where
  "append_file fs p s =
     (case output_file fs p ((case input_file fs p of None \<Rightarrow> [] | Some old \<Rightarrow> old) @ s) of
        None \<Rightarrow> fs
      | Some t \<Rightarrow> fs\<lparr>fs_root := t\<rparr>)"

definition ends_with :: "string \<Rightarrow> string \<Rightarrow> bool" where
  "ends_with e s \<longleftrightarrow> length e \<le> length s \<and> drop (length s - length e) s = e"

text \<open>The file of a request; \<open>data_path_[data_path_.size() - 1]\<close> of an empty string is undefined.\<close>

definition md_file_path :: "string \<Rightarrow> string \<Rightarrow> string result" where
  "md_file_path data_path target =
     (let path = drop (pos_plus (find_char SLASH target) 1) target in
      case find_char SLASH path of
        None \<Rightarrow> Inr ''README.md''
      | Some i \<Rightarrow>
          (let path = drop (i + 1) path in
           if data_path = [] then Inl Undefined_Behaviour
           else if last data_path = SLASH then Inr (''./'' @ data_path @ path)
           else Inr (''./'' @ data_path @ ''/'' @ path)))"

definition plain_text_error :: "string \<Rightarrow> nat \<Rightarrow> http_response \<Rightarrow> http_response" where
  "plain_text_error message status res =
     (let res = set_body message res;
          res = set_result status res;
          res = set_length res;
          res = set_type ''text/plain'' res
      in res)"

definition markdown_handle_request ::
    "string \<Rightarrow> real_fs \<Rightarrow> http_request \<Rightarrow> http_response \<Rightarrow> (real_fs \<times> bool \<times> http_response) result" where
  "markdown_handle_request data_path fs req res =
     bind_res (md_file_path data_path (req_target req)) (\<lambda>md_path.
       if \<not> ends_with ''.md'' md_path then
         Inr (fs, False, plain_text_error (''File requested is not a markdown file'' @ [LF]) 400 res)
       else if real_file_exists fs md_path = Inr False then
         Inr (fs, False, plain_text_error (''File does not exist'' @ [LF]) 404 res)
       else
         (case input_file fs md_path of
            None \<Rightarrow> Inr (fs, False, plain_text_error (''Error opening file'' @ [LF]) 500 res)
          | Some md \<Rightarrow>
              (let lines = read_lines md;
                   html_path = take (length md_path - 3) md_path @ ''.html'';
                   removed = (if real_file_exists fs html_path = Inr True then c_remove fs html_path else Some fs)
               in
               case removed of
                 None \<Rightarrow> Inr (fs, False, plain_text_error (''Error deleting file'' @ [LF]) 500 res)
               | Some fs \<Rightarrow>
                   (let fs = append_file fs html_path (render_lines False lines);
                        res = set_body [] res
                    in
                    case input_file fs html_path of
                      None \<Rightarrow> Inr (fs, False, plain_text_error (''Error opening file'' @ [LF]) 500 res)
                    | Some html \<Rightarrow>
                        (let res = set_body (concat (read_lines html)) res;
                             fs = (case c_remove fs html_path of None \<Rightarrow> fs | Some fs' \<Rightarrow> fs');
                             res = set_result 200 res;
                             res = set_length res;
                             res = set_type ''text/html'' res
                         in Inr (fs, True, res))))))"

subsection \<open>What the inline loops do\<close>

lemma find_str_skip:
  "x \<notin> set a \<Longrightarrow> find_str (x # m) (a @ s) = map_option (\<lambda>i. length a + i) (find_str (x # m) s)"
proof (induction a)
  case Nil
  then show ?case by (cases "find_str (x # m) s") simp_all
next
  case (Cons c a)
  then show ?case by (cases "find_str (x # m) s") auto
qed

lemma find_str_absent: "x \<notin> set s \<Longrightarrow> find_str (x # m) s = None"
  using find_str_skip [of x s m "[]"] by simp

lemma marks_zero: "marks s = 0 \<longleftrightarrow> CHR ''*'' \<notin> set s \<and> CHR ''_'' \<notin> set s \<and> CHR ''`'' \<notin> set s"
  by (induction s) (auto simp: marks_def)

lemma wrap_pair_first:
  assumes "x \<notin> set a" and "x \<notin> set open_tag" and "x \<notin> set b"
  shows "wrap_pair (x # m) open_tag close_tag (a @ (x # m) @ b @ (x # m) @ c) = Some (a @ open_tag @ b @ close_tag @ c)"
proof -
  have f: "find_str (x # m) (p @ (x # m) @ q) = Some (length p)" if "x \<notin> set p" for p q
    using find_str_skip [OF that, of m "(x # m) @ q"] starts_with_append [of "x # m" q] by simp
  have 1: "find_str (x # m) (a @ (x # m) @ b @ (x # m) @ c) = Some (length a)" using f [OF assms(1)] .
  have r: "replace_at (a @ (x # m) @ b @ (x # m) @ c) (length a) (length (x # m)) open_tag = (a @ open_tag @ b) @ (x # m) @ c"
    by (simp add: replace_at_def)
  have 2: "find_str (x # m) ((a @ open_tag @ b) @ (x # m) @ c) = Some (length (a @ open_tag @ b))"
    using assms by (intro f) simp
  have "replace_at ((a @ open_tag @ b) @ (x # m) @ c) (length (a @ open_tag @ b)) (length (x # m)) close_tag =
      a @ open_tag @ b @ close_tag @ c"
    by (simp add: replace_at_def)
  then show ?thesis unfolding wrap_pair_def 1 option.case Let_def r 2 by simp
qed

text \<open>A line without markers stays as it is.\<close>

lemma no_marks_steps:
  assumes "marks s = 0"
  shows "bold_step s = None" "italics_step s = None" "code_step s = None"
  using assms by (simp_all add: marks_zero bold_step_def italics_step_def code_step_def find_str_absent)

lemma no_marks_loops:
  assumes "marks s = 0"
  shows "bold_loop s = s" "italics_loop s = s" "code_loop s = s"
  using no_marks_steps [OF assms]
  by (simp_all add: bold_loop.simps italics_loop.simps code_loop.simps)

lemma tag_marks: "marks ''<strong>'' = 0" "marks ''</strong>'' = 0" "marks ''<em>'' = 0" "marks ''</em>'' = 0"
    "marks ''<code>'' = 0" "marks ''</code>'' = 0"
  by code_simp+

lemma single_pair_no_double:
  assumes "x \<notin> set a" "x \<notin> set b" "x \<notin> set c" "b \<noteq> []"
  shows "find_str [x, x] (a @ [x] @ b @ [x] @ c) = None"
proof -
  obtain d e where "b = d # e" using assms(4) by (cases b) auto
  moreover have "find_str [x, x] (b @ [x] @ c) = None"
    unfolding find_str_skip [OF assms(2)] using assms(3)
    by (cases c) (auto simp: find_str_absent)
  ultimately show ?thesis
    unfolding find_str_skip [OF assms(1)] using assms(2) by (auto simp: find_str_absent)
qed

lemma other_marker_absent:
  assumes "marks a = 0" "marks b = 0" "marks c = 0" "x \<in> {CHR ''*'', CHR ''_'', CHR ''`''}" "x \<notin> set m"
  shows "find_str (x # m') (a @ m @ b @ m @ c) = None"
  using assms by (intro find_str_absent) (auto simp: marks_zero)

lemma triple_absent: "find_str [x, x] s = None \<Longrightarrow> find_str [x, x, x] s = None"
  unfolding find_str_None_iff by (metis append_Cons append_Nil append_assoc)

lemma wrap_pair_found: "wrap_pair m open_tag close_tag l = Some l' \<Longrightarrow> find_str m l \<noteq> None"
  by (simp add: wrap_pair_def split: option.splits)

lemma loops_end:
  "bold_step l = Some l' \<Longrightarrow> marks l' = 0 \<Longrightarrow> inline_markup l = l'"
  "bold_step l = None \<Longrightarrow> italics_step l = Some l' \<Longrightarrow> marks l' = 0 \<Longrightarrow> inline_markup l = l'"
  "bold_step l = None \<Longrightarrow> italics_step l = None \<Longrightarrow> code_step l = Some l' \<Longrightarrow> marks l' = 0 \<Longrightarrow> inline_markup l = l'"
  using no_marks_loops [of l']
  by (simp_all add: inline_markup_def bold_loop.simps [of l] italics_loop.simps [of l] code_loop.simps [of l])

text \<open>A pair of markers between texts that hold none.\<close>

lemma inline_pair:
  assumes z: "marks a = 0" "marks b = 0" "marks c = 0" and b: "b \<noteq> []"
  shows "inline_markup (a @ ''**'' @ b @ ''**'' @ c) = a @ ''<strong>'' @ b @ ''</strong>'' @ c" (is ?bold1)
    and "inline_markup (a @ ''__'' @ b @ ''__'' @ c) = a @ ''<strong>'' @ b @ ''</strong>'' @ c" (is ?bold2)
    and "inline_markup (a @ ''*'' @ b @ ''*'' @ c) = a @ ''<em>'' @ b @ ''</em>'' @ c" (is ?em1)
    and "inline_markup (a @ ''_'' @ b @ ''_'' @ c) = a @ ''<em>'' @ b @ ''</em>'' @ c" (is ?em2)
    and "inline_markup (a @ ''`'' @ b @ ''`'' @ c) = a @ ''<code>'' @ b @ ''</code>'' @ c" (is ?code)
proof -
  have fin: "marks (a @ ''<strong>'' @ b @ ''</strong>'' @ c) = 0" "marks (a @ ''<em>'' @ b @ ''</em>'' @ c) = 0"
    "marks (a @ ''<code>'' @ b @ ''</code>'' @ c) = 0"
    using z tag_marks by (simp_all only: marks_append add_0)
  have w: "wrap_pair (x # m) o_tag c_tag (a @ (x # m) @ b @ (x # m) @ c) = Some (a @ o_tag @ b @ c_tag @ c)"
    if "x \<in> {CHR ''*'', CHR ''_'', CHR ''`''}" "marks o_tag = 0" for x m o_tag c_tag
    using that z by (intro wrap_pair_first) (auto simp: marks_zero)
  have single: "find_str [x, x] (a @ [x] @ b @ [x] @ c) = None"
    if "x \<in> {CHR ''*'', CHR ''_'', CHR ''`''}" for x
    using that z b by (intro single_pair_no_double) (auto simp: marks_zero)
  note absent = other_marker_absent [OF z]
  note found = wrap_pair_found [OF w]
  show ?bold1
    by (rule loops_end(1)) (use w [of "CHR ''*''" "''<strong>''" "''*''"] found [of "CHR ''*''" "''<strong>''" "''*''"] tag_marks fin
      in \<open>simp_all only: bold_step_def simp_thms if_True insert_iff\<close>)
  show ?bold2
    by (rule loops_end(1)) (use w [of "CHR ''_''" "''<strong>''" "''_''"] found [of "CHR ''_''" "''<strong>''" "''_''"] tag_marks fin
      absent [of "CHR ''*''" "''__''" "''*''"] in \<open>simp_all add: bold_step_def del: append.simps append_assoc\<close>)
  show ?em1
    by (rule loops_end(2)) (use w [of "CHR ''*''" "''<em>''" "[]"] found [of "CHR ''*''" "''<em>''" "[]"] tag_marks fin
      single [of "CHR ''*''"] absent [of "CHR ''_''" "''*''" "''_''"]
      in \<open>simp_all add: bold_step_def italics_step_def del: append.simps append_assoc\<close>)
  show ?em2
    by (rule loops_end(2)) (use w [of "CHR ''_''" "''<em>''" "[]"] found [of "CHR ''_''" "''<em>''" "[]"] tag_marks fin
      single [of "CHR ''_''"] absent [of "CHR ''*''" "''_''"]
      in \<open>simp_all add: bold_step_def italics_step_def del: append.simps append_assoc\<close>)
  show ?code
    by (rule loops_end(3)) (use w [of "CHR ''`''" "''<code>''" "[]"] found [of "CHR ''`''" "''<code>''" "[]"] tag_marks fin
      triple_absent [OF single [of "CHR ''`''"]] absent [of "CHR ''*''" "''`''"] absent [of "CHR ''_''" "''`''"]
      in \<open>simp_all add: bold_step_def italics_step_def code_step_def del: append.simps append_assoc\<close>)
qed

text \<open>
  Inline markup renders the documented pairs.  Around text without markers of its own, a
  pair of \<open>**\<close> or \<open>__\<close> becomes a \<open>strong\<close> element, a pair of \<open>*\<close> or \<open>_\<close> around some text an \<open>em\<close>
  element and a pair of backquotes a \<open>code\<close> element, and the text is kept.
\<close>

lemma inline_markup_pairs:
  assumes "marks a = 0" and "marks b = 0" and "marks c = 0" and "b \<noteq> []"
  shows "inline_markup (a @ ''**'' @ b @ ''**'' @ c) = a @ ''<strong>'' @ b @ ''</strong>'' @ c \<and>
    inline_markup (a @ ''__'' @ b @ ''__'' @ c) = a @ ''<strong>'' @ b @ ''</strong>'' @ c \<and>
    inline_markup (a @ ''*'' @ b @ ''*'' @ c) = a @ ''<em>'' @ b @ ''</em>'' @ c \<and>
    inline_markup (a @ ''_'' @ b @ ''_'' @ c) = a @ ''<em>'' @ b @ ''</em>'' @ c \<and>
    inline_markup (a @ ''`'' @ b @ ''`'' @ c) = a @ ''<code>'' @ b @ ''</code>'' @ c"
  using inline_pair [OF assms] by blast






subsection \<open>The request\<close>

text \<open>Paths with the same components resolve alike.\<close>

definition same_path :: "string \<Rightarrow> string \<Rightarrow> bool" where
  "same_path p q \<longleftrightarrow> path_comps p = path_comps q \<and> absolute p = absolute q \<and>
     trailing_slash p = trailing_slash q \<and> p \<noteq> [] \<and> q \<noteq> []"

lemma same_path_resolve:
  assumes "same_path p q"
  shows "resolve fs p = resolve fs q" "real_file_exists fs p = real_file_exists fs q"
    "input_file fs p = input_file fs q" "output_file fs p s = output_file fs q s"
    "append_file fs p s = append_file fs q s" "c_remove fs p = c_remove fs q"
proof -
  have eqs: "path_comps p = path_comps q" "absolute p = absolute q" "trailing_slash p = trailing_slash q"
    "(p = []) = False" "(q = []) = False"
    using assms by (simp_all add: same_path_def)
  show r: "resolve fs p = resolve fs q" unfolding resolve_def start_dir_def eqs ..
  show "real_file_exists fs p = real_file_exists fs q" unfolding real_file_exists_def r ..
  show i: "input_file fs p = input_file fs q" unfolding input_file_def r ..
  have o: "output_file fs p s = output_file fs q s" for s unfolding output_file_def start_dir_def eqs ..
  show "output_file fs p s = output_file fs q s" by (rule o)
  show "append_file fs p s = append_file fs q s" unfolding append_file_def i o ..
  show "c_remove fs p = c_remove fs q" unfolding c_remove_def real_delete_file_def start_dir_def eqs ..
qed

lemma concat_read_lines: "concat (read_lines s) = filter (\<lambda>c. c \<noteq> LF) s"
proof (induction s rule: read_lines.induct)
  case (1 s)
  show ?case
  proof (cases "s = []")
    case False
    let ?d = "dropWhile (\<lambda>c. c \<noteq> LF) s"
    have "filter (\<lambda>c. c \<noteq> LF) s = filter (\<lambda>c. c \<noteq> LF) (takeWhile (\<lambda>c. c \<noteq> LF) s @ ?d)" by simp
    also have "\<dots> = takeWhile (\<lambda>c. c \<noteq> LF) s @ filter (\<lambda>c. c \<noteq> LF) ?d"
      unfolding filter_append by (rule arg_cong2 [where f = append, OF filter_True refl]) (blast dest: set_takeWhileD)
    also have "filter (\<lambda>c. c \<noteq> LF) ?d = filter (\<lambda>c. c \<noteq> LF) (tl ?d)"
    proof (cases ?d)
      case (Cons c cs)
      then have "c = LF" using hd_dropWhile [of "\<lambda>c. c \<noteq> LF" s] by simp
      with Cons show ?thesis by simp
    next
      case Nil
      show ?thesis unfolding Nil by simp
    qed
    finally have f: "filter (\<lambda>c. c \<noteq> LF) s = takeWhile (\<lambda>c. c \<noteq> LF) s @ filter (\<lambda>c. c \<noteq> LF) (tl ?d)" .
    have "read_lines s = takeWhile (\<lambda>c. c \<noteq> LF) s # read_lines (tl ?d)"
      using False by (subst read_lines.simps) (simp only: if_False)
    then show ?thesis unfolding f by (simp only: concat.simps 1 [OF False])
  qed (simp add: read_lines.simps)
qed


text \<open>Appending to a new or an existing file.\<close>

lemma input_file_plain:
  assumes "real_ok fs" "list_all plain_name ns"
  shows "input_file fs (plain_path ns) =
    (if real_dir fs ns then Some [] else real_content fs ns)"
proof (cases "lookup (fs_root fs) (fs_cwd fs @ ns)")
  case None
  with resolve_plain_missing [OF assms None] show ?thesis
    by (auto simp: input_file_def real_defs lookup_cases)
next
  case (Some d)
  with resolve_plain_Found [OF assms Some] show ?thesis
    by (cases d) (simp_all add: input_file_def real_defs is_dir_def file_at_def)
qed

lemma append_file_plain:
  assumes ok: "real_ok fs" and plain: "list_all plain_name (ms @ [n])" and d: "real_dir fs ms"
    and nd: "\<not> real_dir fs (ms @ [n])"
  shows "real_ok (append_file fs (plain_path (ms @ [n])) s) \<and>
    real_content (append_file fs (plain_path (ms @ [n])) s) = (real_content fs)(ms @ [n] \<mapsto>
      (case real_content fs (ms @ [n]) of None \<Rightarrow> [] | Some old \<Rightarrow> old) @ s) \<and>
    real_dir (append_file fs (plain_path (ms @ [n])) s) = real_dir fs"
proof -
  let ?p = "(fs_cwd fs @ ms) @ [n]"
  let ?s = "(case real_content fs (ms @ [n]) of None \<Rightarrow> [] | Some old \<Rightarrow> old) @ s"
  have cwd: "is_dir (fs_root fs) (fs_cwd fs)" using ok by (simp add: real_ok_def)
  have par: "is_dir (fs_root fs) (fs_cwd fs @ ms)" and np: "\<not> is_dir (fs_root fs) ?p"
    using d nd by (simp_all add: real_dir_def)
  have "input_file fs (plain_path (ms @ [n])) = real_content fs (ms @ [n])" using input_file_plain [OF ok plain] nd by simp
  then have a: "append_file fs (plain_path (ms @ [n])) s = fs\<lparr>fs_root := set_node ?p (File ?s) (fs_root fs)\<rparr>"
    using output_file_plain [OF par cwd plain] np by (simp add: append_file_def)
  show ?thesis unfolding a
    using set_file [OF par np, of ?s] cwd by (auto simp: real_defs fun_eq_iff)
qed

lemma c_remove_plain:
  assumes "real_ok fs" "list_all plain_name ns" "real_content fs ns \<noteq> None"
  shows "\<exists>fs'. c_remove fs (plain_path ns) = Some fs' \<and> real_ok fs' \<and>
    real_content fs' = (real_content fs)(ns := None) \<and> real_dir fs' = real_dir fs"
  using rf.delete_law [OF assms] by (auto simp: c_remove_def)

definition md_path_of :: "string list \<Rightarrow> string \<Rightarrow> string" where
  "md_path_of ds f = ''./'' @ concat (map (\<lambda>n. SLASH # n) ds) @ ''/'' @ f"

lemma md_path_same:
  assumes "list_all plain_name (ds @ [f])"
  shows "same_path (md_path_of ds f) (plain_path (ds @ [f]))"
proof -
  have f: "SLASH \<notin> set f" "f \<noteq> []" using assms by (simp_all add: plain_name_def)
  have "segments (concat (map (\<lambda>n. SLASH # n) ds) @ SLASH # f) = [] # ds @ [f]"
    using segments_names [of "[]" "ds @ [f]"] assms by simp
  then have "segments (md_path_of ds f) = ''.'' # [] # ds @ [f]"
    by (simp add: md_path_of_def)
  then have "path_comps (md_path_of ds f) = ''.'' # ds @ [f]"
    using assms by (auto simp: path_comps_def list_all_iff plain_name_def intro!: filter_True)
  moreover have "last (md_path_of ds f) \<noteq> SLASH"
    using f by (simp add: md_path_of_def) (metis last_in_set)
  moreover have "\<not> absolute (md_path_of ds f)" "md_path_of ds f \<noteq> []"
    by (simp_all add: absolute_def md_path_of_def)
  ultimately show ?thesis
    using path_comps_plain [OF assms] trailing_slash_plain [OF assms] plain_path_facts [of "ds @ [f]"]
    by (simp only: same_path_def trailing_slash_def [of "md_path_of ds f"] simp_thms)
qed


lemma md_file_path_of:
  assumes "ds \<noteq> []" and "list_all plain_name ds" and "SLASH \<notin> set a"
  shows "md_file_path (concat (map (\<lambda>n. SLASH # n) ds)) (SLASH # a @ SLASH # f) = Inr (md_path_of ds f)"
proof -
  let ?dp = "concat (map (\<lambda>n. SLASH # n) ds)"
  have "last (plain_path ds) \<noteq> SLASH" using assms(2) by (rule last_plain_path)
  moreover have ne: "?dp \<noteq> []" using assms(1) by (cases ds) simp_all
  ultimately have "last ?dp \<noteq> SLASH" by (simp add: plain_path_def)
  moreover have "find_char SLASH (a @ SLASH # f) = Some (length a)" using assms(3) by (simp add: find_char_append)
  ultimately show ?thesis using ne by (simp add: md_file_path_def Let_def md_path_of_def)
qed

text \<open>The HTML file of an earlier run is removed before the rendering is appended.\<close>

lemma clear_html:
  assumes "real_ok fs" and hp: "list_all plain_name h" and "\<not> real_dir fs h"
    and same: "same_path hpath (plain_path h)"
  obtains fs1 where "(if real_file_exists fs hpath = Inr True then c_remove fs hpath else Some fs) = Some fs1"
    "real_ok fs1" "real_content fs1 = (real_content fs)(h := None)" "real_dir fs1 = real_dir fs"
proof (cases "real_content fs h")
  note hds = same_path_resolve [OF same]
  case None
  then have "(real_content fs)(h := None) = real_content fs" by auto
  with None that [of fs] real_exists_law [OF assms(1) hp] assms(1,3) show thesis unfolding hds by simp
next
  note hds = same_path_resolve [OF same]
  case (Some s)
  then obtain fs' where "c_remove fs (plain_path h) = Some fs'" "real_ok fs'"
    "real_content fs' = (real_content fs)(h := None)" "real_dir fs' = real_dir fs"
    using c_remove_plain [OF assms(1) hp] by auto
  with Some that [of fs'] real_exists_law [OF assms(1) hp] show thesis unfolding hds by simp
qed

text \<open>
  A Markdown file is answered with its rendering and the temporary file leaves no trace.
  For \<open>name.md\<close> in the data directory the answer is 200 with the HTML of its lines, without
  line feeds, and the length of that body; afterwards the files are those of before except that
  \<open>name.html\<close> next to it does not exist, even when it did before.
\<close>

lemma markdown_serves:
  assumes "real_ok fs" and "ds \<noteq> []" and "list_all plain_name (ds @ [f @ ''.md''])" and "plain_name (f @ ''.html'')"
    and "SLASH \<notin> set a" and "real_content fs (ds @ [f @ ''.md'']) = Some md"
    and "\<not> real_dir fs (ds @ [f @ ''.html''])" and "req_target req = SLASH # a @ SLASH # f @ ''.md''"
  shows "\<exists>fs' html. markdown_handle_request (concat (map (\<lambda>n. SLASH # n) ds)) fs req res =
      Inr (fs', True, \<lparr>res_body = html, res_result = 200, res_content_length = Some (length html),
                       res_content_type = Some ''text/html''\<rparr>) \<and>
    html = filter (\<lambda>c. c \<noteq> LF) (render_lines False (read_lines md)) \<and>
    real_content fs' = (real_content fs)(ds @ [f @ ''.html''] := None) \<and> real_dir fs' = real_dir fs"
proof -
  let ?md = "f @ ''.md''" and ?h = "ds @ [f @ ''.html'']" and ?r = "render_lines False (read_lines md)"
  let ?mp = "md_path_of ds ?md" and ?hp = "md_path_of ds (f @ ''.html'')"
  have ds: "list_all plain_name ds" and hp: "list_all plain_name ?h" using assms(3,4) by simp_all
  note mds = same_path_resolve [OF md_path_same [OF assms(3)]]
  note hds = same_path_resolve [OF md_path_same [OF hp]]
  have path: "md_file_path (concat (map (\<lambda>n. SLASH # n) ds)) (req_target req) = Inr ?mp"
    unfolding assms(8) by (rule md_file_path_of [OF assms(2) ds assms(5)])
  have ends: "ends_with ''.md'' ?mp" by (simp add: ends_with_def md_path_of_def)
  have html_path: "take (length ?mp - 3) ?mp @ ''.html'' = ?hp" by (simp add: md_path_of_def)
  have md_file: "real_file_exists fs ?mp \<noteq> Inr False" "input_file fs ?mp = Some md"
    using real_exists_law [OF assms(1,3)] input_file_plain [OF assms(1,3)] assms(6) real_file_no_dir [of fs "ds @ [?md]"]
    unfolding mds by simp_all
  have par: "real_dir fs ds" using real_parent_law [of fs ds ?md] assms(6) by simp
  obtain fs1 where fs1: "(if real_file_exists fs ?hp = Inr True then c_remove fs ?hp else Some fs) = Some fs1"
      "real_ok fs1" "real_content fs1 = (real_content fs)(?h := None)" "real_dir fs1 = real_dir fs"
    by (rule clear_html [OF assms(1) hp assms(7) md_path_same [OF hp]])
  let ?fs2 = "append_file fs1 ?hp ?r"
  have fs2: "real_ok ?fs2" "real_content ?fs2 = (real_content fs)(?h \<mapsto> ?r)" "real_dir ?fs2 = real_dir fs"
    using append_file_plain [OF fs1(2) hp, of ?r] par assms(7) fs1(3,4) unfolding hds by simp_all
  have read: "input_file ?fs2 ?hp = Some ?r"
    using input_file_plain [OF fs2(1) hp] fs2(2,3) assms(7) unfolding hds(3) by simp
  obtain fs3 where fs3: "c_remove ?fs2 ?hp = Some fs3" "real_content fs3 = (real_content fs)(?h := None)"
      "real_dir fs3 = real_dir fs"
    using c_remove_plain [OF fs2(1) hp] fs2(2,3) unfolding hds(6) by auto
  have "markdown_handle_request (concat (map (\<lambda>n. SLASH # n) ds)) fs req res =
      Inr (fs3, True, \<lparr>res_body = concat (read_lines ?r), res_result = 200,
        res_content_length = Some (length (concat (read_lines ?r))), res_content_type = Some ''text/html''\<rparr>)"
    unfolding markdown_handle_request_def path bind_res_simps Let_def html_path
    using ends md_file fs1(1) read fs3(1) by (simp add: response_simps)
  then show ?thesis using fs3(2,3) concat_read_lines [of ?r] by auto
qed

text \<open>
  Without a data path a request below the location has no result: the handler reads the last
  character of the empty string.
\<close>

lemma markdown_empty_data_path:
  "markdown_handle_request [] fs req res = Inl Undefined_Behaviour \<longleftrightarrow>
     (case find_char SLASH (drop (pos_plus (find_char SLASH (req_target req)) 1) (req_target req)) of
        None \<Rightarrow> False | Some i \<Rightarrow> True)"
  by (auto simp: markdown_handle_request_def md_file_path_def Let_def split: option.splits)

end
