(* ===== verification/Server.thy ===== *)
theory Server
  imports Config_Query Crud_Handler Markdown_Handler "HOL-Library.Word"
begin

section \<open>Handler factories, routes and start-up\<close>

text \<open>
  The eight handler factories (src/*\_handler\_factory.cc), the dispatch of \<open>handle_request\<close>
  through the base class, and src/server.cc with the start-up of src/server\_main.cc.  A pointer
  to a factory or handler is a value of the datatype of its classes; \<open>config_\<close>, which every
  factory stores and none uses after its construction, is left out.  The files and the clock a
  handler may change are the record \<open>world\<close>.
\<close>

record world =
  world_fs :: real_fs
  world_clock :: nat

datatype handler_factory =
    StaticHandlerFactory string
  | EchoHandlerFactory string
  | BadHandlerFactory string
  | CrudHandlerFactory string string
  | HealthHandlerFactory string
  | SleepHandlerFactory string
  | MarkdownHandlerFactory string string
  | NotFoundHandlerFactory string

datatype request_handler =
    StaticHandler string | EchoHandler | BadHandler | CrudHandler string
  | HealthHandler | SleepHandler | MarkdownHandler string | NotFoundHandler

text \<open>\<open>create()\<close> of each class, and the virtual call of it.\<close>

definition create_static :: "string \<Rightarrow> request_handler" where
  "create_static path = StaticHandler path"

definition create_echo :: "string \<Rightarrow> request_handler" where
  "create_echo path = EchoHandler"

definition create_bad :: "string \<Rightarrow> request_handler" where
  "create_bad path = BadHandler"

definition create_crud :: "string \<Rightarrow> string \<Rightarrow> request_handler" where
  "create_crud location_path data_path = CrudHandler data_path"

definition create_health :: "string \<Rightarrow> request_handler" where
  "create_health path = HealthHandler"

definition create_sleep :: "string \<Rightarrow> request_handler" where
  "create_sleep path = SleepHandler"

definition create_markdown :: "string \<Rightarrow> string \<Rightarrow> request_handler" where
  "create_markdown location_path data_path = MarkdownHandler data_path"

definition create_notfound :: "string \<Rightarrow> request_handler" where
  "create_notfound path = NotFoundHandler"

fun create :: "handler_factory \<Rightarrow> request_handler" where
  "create (StaticHandlerFactory path) = create_static path"
| "create (EchoHandlerFactory path) = create_echo path"
| "create (BadHandlerFactory path) = create_bad path"
| "create (CrudHandlerFactory location_path data_path) = create_crud location_path data_path"
| "create (HealthHandlerFactory path) = create_health path"
| "create (SleepHandlerFactory path) = create_sleep path"
| "create (MarkdownHandlerFactory location_path data_path) = create_markdown location_path data_path"
| "create (NotFoundHandlerFactory path) = create_notfound path"

lemmas create_defs [simp] =
  create_static_def create_echo_def create_bad_def create_crud_def create_health_def create_sleep_def
  create_markdown_def create_notfound_def

text \<open>The virtual call \<open>handler->handle_request(request_, response_)\<close>.\<close>

fun handle_request ::
    "request_handler \<Rightarrow> world \<Rightarrow> http_request \<Rightarrow> http_response \<Rightarrow> (world \<times> bool \<times> http_response) result" where
  "handle_request (StaticHandler path) w req res =
     (let (st, res) = static_handle_request path (world_fs w) req res in Inr (w, st, res))"
| "handle_request EchoHandler w req res = (let (st, res) = echo_handle_request req res in Inr (w, st, res))"
| "handle_request BadHandler w req res = (let (st, res) = bad_handle_request req res in Inr (w, st, res))"
| "handle_request (CrudHandler data) w req res =
     bind_res (crud_handle_request real_filesystem data (world_fs w) req res) (\<lambda>(fs, st, res).
       Inr (w\<lparr>world_fs := fs\<rparr>, st, res))"
| "handle_request HealthHandler w req res = (let (st, res) = health_handle_request req res in Inr (w, st, res))"
| "handle_request SleepHandler w req res =
     (let (clock, st, res) = sleep_handle_request (world_clock w) req res
      in Inr (w\<lparr>world_clock := clock\<rparr>, st, res))"
| "handle_request (MarkdownHandler data) w req res =
     bind_res (markdown_handle_request data (world_fs w) req res) (\<lambda>(fs, st, res).
       Inr (w\<lparr>world_fs := fs\<rparr>, st, res))"
| "handle_request NotFoundHandler w req res = (let (st, res) = not_found_handle_request req res in Inr (w, st, res))"

text \<open>\<open>args_map["data_path"]\<close> of an \<open>unordered_map<string, string>\<close>: the empty string when absent.\<close>

definition map_entry :: "string_map \<Rightarrow> string \<Rightarrow> string" where
  "map_entry m k = (case map_of m k of None \<Rightarrow> [] | Some v \<Rightarrow> v)"

definition new_crud_factory :: "NginxConfig \<Rightarrow> string \<Rightarrow> handler_factory result" where
  "new_crud_factory cfg path =
     bind_res (get_crud_args cfg) (\<lambda>args_map.
       Inr (CrudHandlerFactory path (map_entry args_map ''data_path'')))"

definition new_markdown_factory :: "NginxConfig \<Rightarrow> string \<Rightarrow> handler_factory result" where
  "new_markdown_factory cfg path =
     bind_res (get_markdown_args cfg) (\<lambda>args_map.
       Inr (MarkdownHandlerFactory path (map_entry args_map ''data_path'')))"

definition createHandlerFactory :: "NginxConfig \<Rightarrow> string \<Rightarrow> string \<Rightarrow> handler_factory result" where
  "createHandlerFactory cfg name target =
     (if name = ''StaticHandler'' then Inr (StaticHandlerFactory target)
      else if name = ''EchoHandler'' then Inr (EchoHandlerFactory target)
      else if name = ''BadHandler'' then Inr (BadHandlerFactory target)
      else if name = ''CrudHandler'' then new_crud_factory cfg target
      else if name = ''HealthHandler'' then Inr (HealthHandlerFactory target)
      else if name = ''SleepHandler'' then Inr (SleepHandlerFactory target)
      else if name = ''MarkdownHandler'' then new_markdown_factory cfg target
      else Inr (NotFoundHandlerFactory target))"

text \<open>
  The routes are only read by \<open>operator[]\<close>, which gives a null pointer for a key that is absent
  or holds one: a partial map, with \<open>None\<close> for null.
\<close>

type_synonym routes = "string \<Rightarrow> handler_factory option"

definition add_route :: "NginxConfig \<Rightarrow> string \<Rightarrow> string \<Rightarrow> string \<Rightarrow> routes \<Rightarrow> routes result" where
  "add_route cfg key name target routes =
     bind_res (createHandlerFactory cfg name target) (\<lambda>f. Inr (routes(key \<mapsto> f)))"

fun add_static_routes :: "NginxConfig \<Rightarrow> string_map \<Rightarrow> routes \<Rightarrow> routes result" where
  "add_static_routes cfg [] routes = Inr routes"
| "add_static_routes cfg ((target, file) # m) routes =
     bind_res (add_route cfg target ''StaticHandler'' target routes) (add_static_routes cfg m)"

definition configMap :: "NginxConfig \<Rightarrow> routes result" where
  "configMap cfg =
     bind_res (get_static_file_path cfg) (\<lambda>static_path_map.
     bind_res (get_echo_path cfg) (\<lambda>echo_path.
     bind_res (get_crud_path cfg) (\<lambda>crud_path.
     bind_res (get_health_path cfg) (\<lambda>health_path.
     bind_res (get_sleep_path cfg) (\<lambda>sleep_path.
     bind_res (get_markdown_path cfg) (\<lambda>markdown_path.
     bind_res (add_static_routes cfg static_path_map (\<lambda>_. None)) (\<lambda>routes.
     bind_res (add_route cfg echo_path ''EchoHandler'' echo_path routes) (\<lambda>routes.
     bind_res (add_route cfg health_path ''HealthHandler'' health_path routes) (\<lambda>routes.
     bind_res (add_route cfg ''/'' ''_404Handler'' ''/'' routes) (\<lambda>routes.
     bind_res (add_route cfg ''bad'' ''BadHandler'' [] routes) (\<lambda>routes.
     bind_res (add_route cfg crud_path ''CrudHandler'' crud_path routes) (\<lambda>routes.
     bind_res (add_route cfg sleep_path ''SleepHandler'' sleep_path routes) (\<lambda>routes.
     add_route cfg markdown_path ''MarkdownHandler'' markdown_path routes)))))))))))))"

subsection \<open>Start-up\<close>

text \<open>
  \<open>Parse(const char*, NginxConfig*)\<close>: the content of the file, or \<open>None\<close> when it does not open.
\<close>

definition Parse_file :: "string option \<Rightarrow> NginxConfig \<Rightarrow> (bool \<times> NginxConfig) result" where
  "Parse_file config_file cfg =
     (case config_file of
        None \<Rightarrow> Inr (False, cfg)
      | Some contents \<Rightarrow> Parse contents cfg)"

text \<open>The \<open>int\<close> port passes through a \<open>short\<close> into the 16 bits of the endpoint.\<close>

definition listen_port :: "int \<Rightarrow> int" where
  "listen_port port_num = uint (word_of_int port_num :: 16 word)"

text \<open>
  \<open>main\<close> up to \<open>run_threads\<close>: the exit status, or the port the server listens on with the
  configuration and the routes its first session gets.  The acceptor is constructed before
  anything else in the server and throws when the port cannot be bound, as \<open>bind_ok\<close> says; \<open>main\<close>
  catches that exception, prints it and falls through to \<open>return 0\<close>.
\<close>

datatype start_up = Exit int | Serving int NginxConfig routes

definition main_start :: "int \<Rightarrow> string option \<Rightarrow> (int \<Rightarrow> bool) \<Rightarrow> start_up result" where
  "main_start argc config_file bind_ok =
     (if argc \<noteq> 2 then Inr (Exit 1)
      else
        bind_res (Parse_file config_file (NginxConfig [])) (\<lambda>(parsed_config, cfg).
        if \<not> parsed_config then Inr (Exit (- 1))
        else
          bind_res (get_port_num cfg) (\<lambda>port_num.
          if port_num = - 1 then Inr (Exit (- 1))
          else if \<not> bind_ok (listen_port port_num) then Inr (Exit 0)
          else
            bind_res (configMap cfg) (\<lambda>routes.
              Inr (Serving (listen_port port_num) cfg routes)))))"

subsection \<open>Properties of the routes\<close>

lemma add_route_eq:
  "add_route cfg key name target routes = Inr routes' \<longleftrightarrow>
   (\<exists>f. createHandlerFactory cfg name target = Inr f \<and> routes' = routes(key \<mapsto> f))"
  by (auto simp: add_route_def res_simps)

lemma add_static_routes_eq:
  "add_static_routes cfg m routes =
   Inr (\<lambda>t. if map_of m t \<noteq> None then Some (StaticHandlerFactory t) else routes t)"
proof (induction m arbitrary: routes)
  case (Cons tf m)
  obtain t f where tf: "tf = (t, f)" by (cases tf)
  have "add_route cfg t ''StaticHandler'' t routes = Inr (routes(t \<mapsto> StaticHandlerFactory t))"
    by (simp add: add_route_def createHandlerFactory_def)
  then show ?case by (auto simp: tf Cons.IH fun_eq_iff)
qed simp

lemma add_route_simps:
  "add_route cfg k ''EchoHandler'' t r = Inr (r(k \<mapsto> EchoHandlerFactory t))"
  "add_route cfg k ''HealthHandler'' t r = Inr (r(k \<mapsto> HealthHandlerFactory t))"
  "add_route cfg k ''SleepHandler'' t r = Inr (r(k \<mapsto> SleepHandlerFactory t))"
  "add_route cfg k ''BadHandler'' t r = Inr (r(k \<mapsto> BadHandlerFactory t))"
  "add_route cfg k ''_404Handler'' t r = Inr (r(k \<mapsto> NotFoundHandlerFactory t))"
  "add_route cfg k ''CrudHandler'' t r = Inr r' \<longleftrightarrow> (\<exists>f. new_crud_factory cfg t = Inr f \<and> r' = r(k \<mapsto> f))"
  "add_route cfg k ''MarkdownHandler'' t r = Inr r' \<longleftrightarrow> (\<exists>f. new_markdown_factory cfg t = Inr f \<and> r' = r(k \<mapsto> f))"
  by (auto simp: add_route_def createHandlerFactory_def bind_res_eq_Inr)

lemma configMap_spec:
  assumes "configMap cfg = Inr routes"
  shows "\<exists>m ep hp cp cf sp mp mf.
    get_static_file_path cfg = Inr m \<and> get_echo_path cfg = Inr ep \<and> get_health_path cfg = Inr hp \<and>
    get_crud_path cfg = Inr cp \<and> new_crud_factory cfg cp = Inr cf \<and> get_sleep_path cfg = Inr sp \<and>
    get_markdown_path cfg = Inr mp \<and> new_markdown_factory cfg mp = Inr mf \<and>
    (\<forall>t. routes t =
      (if t = mp then Some mf
       else if t = sp then Some (SleepHandlerFactory sp)
       else if t = cp then Some cf
       else if t = ''bad'' then Some (BadHandlerFactory [])
       else if t = ''/'' then Some (NotFoundHandlerFactory ''/'')
       else if t = hp then Some (HealthHandlerFactory hp)
       else if t = ep then Some (EchoHandlerFactory ep)
       else if map_of m t \<noteq> None then Some (StaticHandlerFactory t)
       else None))"
proof -
  from assms obtain m ep hp cp cf sp mp mf where
    g: "get_static_file_path cfg = Inr m" "get_echo_path cfg = Inr ep" "get_health_path cfg = Inr hp"
      "get_crud_path cfg = Inr cp" "new_crud_factory cfg cp = Inr cf" "get_sleep_path cfg = Inr sp"
      "get_markdown_path cfg = Inr mp" "new_markdown_factory cfg mp = Inr mf"
    and r: "routes = (\<lambda>t. if map_of m t \<noteq> None then Some (StaticHandlerFactory t) else None)
        (ep \<mapsto> EchoHandlerFactory ep, hp \<mapsto> HealthHandlerFactory hp, ''/'' \<mapsto> NotFoundHandlerFactory ''/'',
         ''bad'' \<mapsto> BadHandlerFactory [], cp \<mapsto> cf, sp \<mapsto> SleepHandlerFactory sp, mp \<mapsto> mf)"
    unfolding configMap_def add_static_routes_eq bind_res_eq_Inr add_route_simps by blast
  have "routes t =
      (if t = mp then Some mf
       else if t = sp then Some (SleepHandlerFactory sp)
       else if t = cp then Some cf
       else if t = ''bad'' then Some (BadHandlerFactory [])
       else if t = ''/'' then Some (NotFoundHandlerFactory ''/'')
       else if t = hp then Some (HealthHandlerFactory hp)
       else if t = ep then Some (EchoHandlerFactory ep)
       else if map_of m t \<noteq> None then Some (StaticHandlerFactory t)
       else None)" for t
    unfolding r by (simp only: fun_upd_apply)
  with g show ?thesis by blast
qed

text \<open>
  C25: The routes of a configuration.  Whatever the configuration, when the routes are built the
  factory of a URI is the one of the last of these that is the URI: a static file, the echo
  path, the health path, \<open>/\<close>, \<open>bad\<close>, the CRUD path, the sleep path, the Markdown path.  A
  handler that is not configured has the empty path, so it serves the empty URI, and the
  Markdown handler, entered last, always wins it when it is not configured.
\<close>

theorem configMap_routes:
  assumes "configMap cfg = Inr routes"
  shows "\<exists>m ep hp cp cf sp mp mf.
    get_static_file_path cfg = Inr m \<and> get_echo_path cfg = Inr ep \<and> get_health_path cfg = Inr hp \<and>
    get_crud_path cfg = Inr cp \<and> new_crud_factory cfg cp = Inr cf \<and> get_sleep_path cfg = Inr sp \<and>
    get_markdown_path cfg = Inr mp \<and> new_markdown_factory cfg mp = Inr mf \<and>
    (\<forall>t. routes t =
      (if t = mp then Some mf
       else if t = sp then Some (SleepHandlerFactory sp)
       else if t = cp then Some cf
       else if t = ''bad'' then Some (BadHandlerFactory [])
       else if t = ''/'' then Some (NotFoundHandlerFactory ''/'')
       else if t = hp then Some (HealthHandlerFactory hp)
       else if t = ep then Some (EchoHandlerFactory ep)
       else if map_of m t \<noteq> None then Some (StaticHandlerFactory t)
       else None))"
  using assms by (rule configMap_spec)

lemma two_crud_routes: "\<exists>routes. configMap two_crud_config = Inr routes"
proof -
  have "\<not> isl (configMap two_crud_config)" by code_simp
  then show ?thesis by (cases "configMap two_crud_config") simp_all
qed

theorem configMap_routes_witness:
  "\<exists>routes. configMap two_crud_config = Inr routes \<and> routes ''/echo'' = Some (EchoHandlerFactory ''/echo'') \<and>
    routes ''/nowhere'' = None"
proof -
  obtain routes where r: "configMap two_crud_config = Inr routes" using two_crud_routes by blast
  have "get_static_file_path two_crud_config =
      Inr [(''/static/index.html'', ''static/index.html''), (''/static/top.html'', ''top.html'')]" "get_echo_path two_crud_config = Inr ''/echo''"
    "get_health_path two_crud_config = Inr []" "get_crud_path two_crud_config = Inr ''/v2''"
    "get_sleep_path two_crud_config = Inr []" "get_markdown_path two_crud_config = Inr []"
    by code_simp+
  with configMap_routes [OF r] r show ?thesis by auto
qed

text \<open>
  The port the server binds is the configured one: \<open>main\<close> serves only ports that \<open>get_port_num\<close>
  accepts, and the round trip through a signed 16-bit \<open>short\<close> gives them back.
\<close>

lemma main_serves_configured_port:
  assumes "main_start argc file bind_ok = Inr (Serving port cfg routes)"
  shows "argc = 2 \<and> bind_ok port \<and> get_port_num cfg = Inr port \<and> 0 \<le> port \<and> port \<le> 65535 \<and>
    configMap cfg = Inr routes"
proof -
  from assms obtain n where *: "argc = 2" "get_port_num cfg = Inr n" "n \<noteq> - 1" "configMap cfg = Inr routes"
    "port = listen_port n" "bind_ok port"
    by (auto simp: main_start_def bind_res_eq_Inr split: if_splits)
  from port_num_range [OF *(2)] *(3) have "listen_port n = n"
    by (simp add: listen_port_def uint_word_of_int)
  with * port_num_range [OF *(2)] show ?thesis by simp
qed

text \<open>
  C40: What \<open>main\<close> comes to.  It serves exactly when the configuration parses, names a port in
  0..65535 that can be bound, and the routes can be built, and then on that port, although it
  goes through a \<open>short\<close>.  It exits with 1 exactly for a wrong number of arguments, with -1
  exactly when the file does not open, does not parse or names no valid port, and with 0, as if
  all were well, exactly when the configured port cannot be bound; there is no other status.
\<close>

theorem main_start_outcomes:
  "main_start argc file bind_ok = Inr st \<longleftrightarrow>
     argc \<noteq> 2 \<and> st = Exit 1 \<or>
     argc = 2 \<and> st = Exit (- 1) \<and> (\<exists>cfg. Parse_file file (NginxConfig []) = Inr (False, cfg)) \<or>
     argc = 2 \<and> (\<exists>cfg port. Parse_file file (NginxConfig []) = Inr (True, cfg) \<and> get_port_num cfg = Inr port \<and>
       (port = - 1 \<and> st = Exit (- 1) \<or>
        0 \<le> port \<and> port \<le> 65535 \<and> \<not> bind_ok port \<and> st = Exit 0 \<or>
        0 \<le> port \<and> port \<le> 65535 \<and> bind_ok port \<and> (\<exists>routes. configMap cfg = Inr routes \<and> st = Serving port cfg routes)))"
proof -
  have port: "listen_port p = p \<and> 0 \<le> p \<and> p \<le> 65535" if "get_port_num cfg = Inr p" "p \<noteq> - 1" for cfg p
    using port_num_range [OF that(1)] that(2) by (simp add: listen_port_def uint_word_of_int)
  show ?thesis
  proof (cases "Parse_file file (NginxConfig [])")
    case (Inr r)
    obtain b cfg where r: "r = (b, cfg)" by (cases r)
    show ?thesis
    proof (cases "get_port_num cfg")
      case p: (Inr p)
      then show ?thesis
        using Inr r port [OF p] by (cases "p = - 1") (auto simp: main_start_def bind_res_eq_Inr)
    qed (use Inr r in \<open>auto simp: main_start_def\<close>)
  qed (auto simp: main_start_def)
qed

end
