(* ===== verification/Session.thy ===== *)
theory Session
  imports Server
begin

section \<open>Sessions\<close>

text \<open>
  src/session.cc: what a connection does with the bytes it reads.  The record holds the members
  of the class; \<open>sess_data\<close> is the 1024-byte buffer \<open>data_\<close>, whose first bytes a read overwrites
  and whose others stay what they were (at first, whatever the memory held).  Of Boost.Beast the
  parameter \<open>to_verb\<close> is \<open>string_to_verb\<close>; the serialisation of the response is left out, so what
  goes out is the response object itself.  What a session logs is in Logging.thy.
\<close>

definition max_length :: nat where
  "max_length = 1024"

record session =
  sess_config :: NginxConfig
  sess_routes :: routes
  sess_data :: string
  sess_parser :: parser_state
  sess_req :: request
  sess_request :: http_request
  sess_response :: http_response

text \<open>
  What the memory of a new session holds where no constructor writes: the buffer \<open>data_\<close> and the
  version numbers of \<open>req_\<close>.
\<close>

record memory =
  mem_data :: string
  mem_major :: int
  mem_minor :: int

definition new_session :: "NginxConfig \<Rightarrow> routes \<Rightarrow> memory \<Rightarrow> session" where
  "new_session cfg routes junk =
     \<lparr>sess_config = cfg, sess_routes = routes, sess_data = mem_data junk, sess_parser = S_method_start,
      sess_req = \<lparr>meth = [], uri = [], http_version_major = mem_major junk, http_version_minor = mem_minor junk, headers = []\<rparr>,
      sess_request = \<lparr>req_method = verb_other, req_target = [], req_body = []\<rparr>,
      sess_response = empty_response\<rparr>"

text \<open>\<open>server::start_accept\<close>: a session with fresh routes; \<open>handle_accept\<close> starts it and accepts the next one.\<close>

definition start_accept :: "NginxConfig \<Rightarrow> memory \<Rightarrow> session result" where
  "start_accept cfg junk = bind_res (configMap cfg) (\<lambda>routes. Inr (new_session cfg routes junk))"

definition handle_accept :: "NginxConfig \<Rightarrow> memory \<Rightarrow> session \<Rightarrow> bool \<Rightarrow> (bool \<times> session option \<times> session option) result" where
  "handle_accept cfg junk new_sess error =
     (if \<not> error then bind_res (start_accept cfg junk) (\<lambda>n. Inr (True, Some new_sess, Some n))
      else Inr (False, None, None))"

text \<open>\<open>uri.rfind(path, 0) == 0\<close> for each configured path in turn.\<close>

definition get_request_type :: "NginxConfig \<Rightarrow> string \<Rightarrow> request_type result" where
  "get_request_type cfg target =
     bind_res (get_echo_path cfg) (\<lambda>echo_path.
     bind_res (get_static_serving_path cfg) (\<lambda>static_path.
     bind_res (get_crud_path cfg) (\<lambda>crud_path.
     bind_res (get_health_path cfg) (\<lambda>health_path.
     bind_res (get_sleep_path cfg) (\<lambda>sleep_path.
     bind_res (get_markdown_path cfg) (\<lambda>markdown_path.
       if echo_path \<noteq> [] \<and> starts_with echo_path target then Inr type_echo
       else if static_path \<noteq> [] \<and> starts_with static_path target then Inr type_static
       else if crud_path \<noteq> [] \<and> starts_with crud_path target then Inr type_crud
       else if health_path \<noteq> [] \<and> starts_with health_path target then Inr type_health
       else if sleep_path \<noteq> [] \<and> starts_with sleep_path target then Inr type_sleep
       else if markdown_path \<noteq> [] \<and> starts_with markdown_path target then Inr type_markdown
       else Inr type_not_found))))))"

text \<open>The text of the request for the log.\<close>

fun header_info :: "nat \<Rightarrow> header list \<Rightarrow> string" where
  "header_info i [] = []"
| "header_info i (h # hs) =
     ''Header '' @ to_string (int i) @ '': '' @ [LF] @ ''Name: '' @ hdr_name h @ [LF] @
     ''Value: '' @ hdr_value h @ [LF] @ header_info (i + 1) hs"

definition request_info :: "request \<Rightarrow> string" where
  "request_info req =
     ''Method: '' @ meth req @ [LF] @ ''Uri: '' @ uri req @ [LF] @
     ''HTTP Version: '' @ to_string (http_version_major req) @ ''.'' @ to_string (http_version_minor req) @ [LF] @
     header_info 0 (headers req)"

text \<open>\<open>string data(data_)\<close>: up to the first NUL, undefined when the buffer holds none.\<close>

definition buffer_string :: "string \<Rightarrow> string result" where
  "buffer_string data = (if NUL \<in> set data then Inr (c_string data) else Inl Undefined_Behaviour)"

definition fall_back :: "routes \<Rightarrow> handler_factory option \<Rightarrow> handler_factory option" where
  "fall_back routes factory = (case factory of None \<Rightarrow> routes ''/'' | Some f \<Rightarrow> Some f)"

text \<open>The factory a good request is handed to.\<close>

definition good_factory ::
    "NginxConfig \<Rightarrow> routes \<Rightarrow> string \<Rightarrow> handler_factory option \<Rightarrow> handler_factory option result" where
  "good_factory cfg routes target factory =
     bind_res (get_request_type cfg target) (\<lambda>req_type.
       case req_type of
         type_static \<Rightarrow>
           bind_res (get_static_file_path cfg) (\<lambda>parsed_config_paths.
             case map_of parsed_config_paths target of
               Some file \<Rightarrow> Inr (Some (StaticHandlerFactory file))
             | None \<Rightarrow> Inr (routes ''/''))
       | type_crud \<Rightarrow> bind_res (get_crud_path cfg) (\<lambda>parsed_crud_path. Inr (routes parsed_crud_path))
       | type_markdown \<Rightarrow> bind_res (get_markdown_path cfg) (\<lambda>parsed_markdown_path. Inr (routes parsed_markdown_path))
       | _ \<Rightarrow> Inr factory)"

text \<open>
  \<open>handle_read\<close>: the result, the session (\<open>None\<close> once it has deleted itself) and the world.  The
  bytes are those \<open>async_read_some\<close> put at the start of the buffer.
\<close>

definition handle_read ::
    "(string \<Rightarrow> verb) \<Rightarrow> session \<Rightarrow> world \<Rightarrow> bool \<Rightarrow> string \<Rightarrow> (int \<times> session option \<times> world) result" where
  "handle_read to_verb s w error bytes =
     (if error then Inr (- 1, None, w)
      else
        let data = bytes @ drop (length bytes) (sess_data s) in
        bind_res (parse (sess_parser s, sess_req s) bytes) (\<lambda>(parse_status, (parser, req), rest).
        bind_res (buffer_string data) (\<lambda>body.
        let request = \<lparr>req_method = to_verb (meth req), req_target = uri req, req_body = body\<rparr>;
            routes = sess_routes s;
            factory = (if parse_status = bad then routes ''bad'' else routes (uri req));
            factory = fall_back routes factory;
            result = (if parse_status = good then 0 else if parse_status = bad then 1 else - 1)
        in
        bind_res (if parse_status = good then good_factory (sess_config s) routes (uri req) factory
                  else Inr factory) (\<lambda>factory.
          case factory of
            None \<Rightarrow> Inl Undefined_Behaviour
          | Some f \<Rightarrow>
              bind_res (handle_request (create f) w request (sess_response s)) (\<lambda>(w, st, response).
                Inr (result,
                  Some (s\<lparr>sess_data := data, sess_parser := parser, sess_req := req,
                          sess_request := request, sess_response := response\<rparr>), w))))))"

text \<open>
  \<open>handle_write\<close>: after a complete write the session waits for more bytes and shuts the socket
  down in both directions; after an error it deletes itself.
\<close>

definition handle_write :: "session \<Rightarrow> bool \<Rightarrow> session option \<times> bool" where
  "handle_write s error = (if \<not> error then (Some s, True) else (None, False))"

subsection \<open>Properties of a read\<close>

text \<open>The responses of the two stock handlers.\<close>

definition bad_response :: http_response where
  "bad_response = \<lparr>res_body = stock_bad_request, res_result = 400,
     res_content_length = Some (length stock_bad_request), res_content_type = Some ''text/html''\<rparr>"

definition not_found_response :: http_response where
  "not_found_response = \<lparr>res_body = stock_not_found, res_result = 404,
     res_content_length = Some (length stock_not_found), res_content_type = Some ''text/html''\<rparr>"

lemma bad_handler_response: "handle_request BadHandler w req res = Inr (w, True, bad_response)"
  by (simp add: bad_handle_request_def response_simps bad_response_def)

lemma not_found_handler_response: "handle_request NotFoundHandler w req res = Inr (w, True, not_found_response)"
  by (simp add: not_found_handle_request_def response_simps not_found_response_def)

lemma handle_read_step:
  assumes "parse (sess_parser s, sess_req s) bytes = Inr (v, (p', req'), rest)"
    and "buffer_string (bytes @ drop (length bytes) (sess_data s)) = Inr body"
    and "(if v = good then good_factory (sess_config s) (sess_routes s) (uri req')
            (fall_back (sess_routes s) (sess_routes s (uri req')))
          else Inr (fall_back (sess_routes s) (if v = bad then sess_routes s ''bad'' else sess_routes s (uri req')))) =
        Inr (Some f)"
    and "handle_request (create f) w \<lparr>req_method = to_verb (meth req'), req_target = uri req', req_body = body\<rparr>
        (sess_response s) = Inr (w', st, res')"
  shows "\<exists>s'. handle_read to_verb s w False bytes =
      Inr (if v = good then 0 else if v = bad then 1 else - 1, Some s', w') \<and>
    sess_response s' = res' \<and> sess_parser s' = p' \<and> sess_req s' = req' \<and>
    sess_config s' = sess_config s \<and> sess_routes s' = sess_routes s"
proof (cases "v = good")
  case True
  with assms show ?thesis by (simp add: handle_read_def Let_def)
next
  case False
  with assms show ?thesis by (cases "v = bad") (simp_all add: handle_read_def Let_def)
qed

text \<open>
  A request the parser rejects is answered with 400 and the stock page, the files and the
  clock are untouched, and \<open>handle_read\<close> reports 1.
\<close>

lemma handle_read_bad:
  assumes "parse (sess_parser s, sess_req s) bytes = Inr (bad, st, rest)"
    and "sess_routes s ''bad'' = Some (BadHandlerFactory p)"
    and "NUL \<in> set (bytes @ drop (length bytes) (sess_data s))"
  shows "\<exists>s'. handle_read to_verb s w False bytes = Inr (1, Some s', w) \<and>
    sess_response s' = bad_response"
proof -
  obtain p' req' where st: "st = (p', req')" by (cases st)
  let ?data = "bytes @ drop (length bytes) (sess_data s)"
  let ?req = "\<lparr>req_method = to_verb (meth req'), req_target = uri req', req_body = c_string ?data\<rparr>"
  have buf: "buffer_string ?data = Inr (c_string ?data)" using assms(3) by (simp add: buffer_string_def)
  have fac: "(if bad = good then good_factory (sess_config s) (sess_routes s) (uri req')
        (fall_back (sess_routes s) (sess_routes s (uri req')))
      else Inr (fall_back (sess_routes s) (if bad = bad then sess_routes s ''bad'' else sess_routes s (uri req')))) =
      Inr (Some (BadHandlerFactory p))"
    using assms(2) by (simp add: fall_back_def)
  have hdl: "handle_request (create (BadHandlerFactory p)) w ?req (sess_response s) = Inr (w, True, bad_response)"
    by (simp only: create.simps create_defs bad_handler_response)
  show ?thesis using handle_read_step [where to_verb = to_verb, OF assms(1) [unfolded st] buf fac hdl] by auto
qed

text \<open>
  The log and the answer can disagree.  The type of a request is found by prefix, its route by
  the whole URI, so below the echo path a good request is typed (and logged as a 200) as an echo
  request and answered with 404.
\<close>

lemma echo_prefix_answers_404:
  assumes "parse (sess_parser s, sess_req s) bytes = Inr (good, (p', req'), rest)"
    and "NUL \<in> set (bytes @ drop (length bytes) (sess_data s))"
    and "get_request_type (sess_config s) (uri req') = Inr type_echo"
    and "sess_routes s (uri req') = None" and "sess_routes s ''/'' = Some (NotFoundHandlerFactory p)"
  shows "\<exists>s'. handle_read to_verb s w False bytes = Inr (0, Some s', w) \<and> sess_response s' = not_found_response"
proof -
  let ?data = "bytes @ drop (length bytes) (sess_data s)"
  let ?req = "\<lparr>req_method = to_verb (meth req'), req_target = uri req', req_body = c_string ?data\<rparr>"
  have buf: "buffer_string ?data = Inr (c_string ?data)" using assms(2) by (simp add: buffer_string_def)
  have fac: "(if good = good then good_factory (sess_config s) (sess_routes s) (uri req')
        (fall_back (sess_routes s) (sess_routes s (uri req')))
      else Inr (fall_back (sess_routes s) (if good = bad then sess_routes s ''bad'' else sess_routes s (uri req')))) =
      Inr (Some (NotFoundHandlerFactory p))"
    using assms(3-5) by (simp add: good_factory_def fall_back_def)
  have hdl: "handle_request (create (NotFoundHandlerFactory p)) w ?req (sess_response s) = Inr (w, True, not_found_response)"
    by (simp only: create.simps create_defs not_found_handler_response)
  show ?thesis using handle_read_step [where to_verb = to_verb, OF assms(1) buf fac hdl] by auto
qed

definition echo_request_bytes :: string where
  "echo_request_bytes = ''GET /echo/x HTTP/1.1'' @ BLANK_LINE"

definition sample_routes :: routes where
  "sample_routes = [''/'' \<mapsto> NotFoundHandlerFactory ''/'', ''bad'' \<mapsto> BadHandlerFactory [],
     ''/echo'' \<mapsto> EchoHandlerFactory ''/echo'', ''/v2'' \<mapsto> CrudHandlerFactory ''/v2'' ''/b'']"

definition sample_world :: world where
  "sample_world = \<lparr>world_fs = sample_fs, world_clock = 0\<rparr>"

text \<open>Memory of zeros except for the buffer.\<close>

definition filled :: "string \<Rightarrow> memory" where
  "filled d = \<lparr>mem_data = d, mem_major = 0, mem_minor = 0\<rparr>"

lemma filled_simps [simp]: "mem_data (filled d) = d"
  by (simp add: filled_def)

lemma new_session_simps [simp]:
  "sess_parser (new_session cfg routes junk) = S_method_start" "fresh (sess_req (new_session cfg routes junk))"
  "sess_req (new_session cfg routes (filled d)) = empty_request"
  "sess_data (new_session cfg routes junk) = mem_data junk" "sess_config (new_session cfg routes junk) = cfg"
  "sess_routes (new_session cfg routes junk) = routes" "sess_response (new_session cfg routes junk) = empty_response"
  by (simp_all add: new_session_def fresh_def filled_def empty_request_def)

lemma c_string_append: "NUL \<notin> set xs \<Longrightarrow> c_string (xs @ ys) = xs @ c_string ys"
  by (induction xs) (auto simp: c_string_def)

subsection \<open>The body of a request\<close>

lemma post_data_of_good:
  assumes "parse (S_method_start, req0) bytes = Inr (good, (st, req), rest)" and "fresh req0"
    and "NUL \<notin> set rest"
  shows "skip_headers (c_string (bytes @ stale)) = Inr (rest @ c_string stale) \<and> NUL \<notin> set bytes"
proof -
  from parse_good_block [OF assms(1,2)] obtain block where
    b: "bytes = block @ rest" "NUL \<notin> set block" "find_str BLANK_LINE bytes = Some (length block - 4)" "4 \<le> length block"
    by blast
  have nul: "NUL \<notin> set bytes" using b(1,2) assms(3) by simp
  then have c: "c_string (bytes @ stale) = bytes @ c_string stale" by (rule c_string_append)
  have "find_str BLANK_LINE (bytes @ c_string stale) = Some (length block - 4)"
    using b(3) by (rule find_str_append)
  then have "skip_headers (c_string (bytes @ stale)) = Inr (rest @ c_string stale)"
    using b(4) unfolding c by (simp add: skip_headers_def substr_from_def b(1))
  with nul show ?thesis by blast
qed

text \<open>
  C30: The CRUD handler and the request parser agree where the body starts.  After a good request
  on a fresh session, what the handler cuts out of the buffer by searching the first blank line
  is exactly the bytes the parser left unread, followed by the stale bytes of the buffer up to
  the first NUL.
\<close>

theorem parser_and_handler_agree_on_body:
  assumes "parse (sess_parser s, sess_req s) bytes = Inr (good, (p', req'), rest)"
    and "sess_parser s = S_method_start" and "fresh (sess_req s)"
    and "NUL \<notin> set rest" and "NUL \<in> set (drop (length bytes) (sess_data s))"
  shows "bind_res (buffer_string (bytes @ drop (length bytes) (sess_data s))) skip_headers =
    Inr (rest @ c_string (drop (length bytes) (sess_data s)))"
  using post_data_of_good [of "sess_req s" bytes p' req' rest "drop (length bytes) (sess_data s)"] assms
  by (simp add: buffer_string_def)

theorem parser_and_handler_agree_on_body_witness:
  "bind_res (buffer_string ((print_request sample_request @ ''{}'') @ [NUL])) skip_headers = Inr ''{}''"
proof -
  let ?s = "new_session two_crud_config sample_routes (filled (replicate (length (print_request sample_request @ ''{}'')) NUL @ [NUL]))"
  have d: "drop (length (print_request sample_request @ ''{}'')) (sess_data ?s) = [NUL]" by simp
  have "parse (sess_parser ?s, sess_req ?s) (print_request sample_request @ ''{}'') =
    Inr (good, (S_expecting_newline_3, sample_request), ''{}'')"
    unfolding new_session_simps by code_simp
  from parser_and_handler_agree_on_body [OF this] show ?thesis
    unfolding d by (simp add: c_string_def)
qed

text \<open>
  A session serves one request.  Nothing resets the parser, so after a good request it waits
  for the line feed of the blank line: the next read is answered with 400 whatever it holds,
  unless its first byte is a line feed.
\<close>

lemma session_not_reusable:
  assumes "sess_parser s = S_expecting_newline_3" and "c \<noteq> LF"
    and "sess_routes s ''bad'' = Some (BadHandlerFactory p)"
    and "NUL \<in> set ((c # cs) @ drop (length (c # cs)) (sess_data s))"
  shows "\<exists>s'. handle_read to_verb s w False (c # cs) = Inr (1, Some s', w) \<and> sess_response s' = bad_response"
proof -
  have parse: "parse (sess_parser s, sess_req s) (c # cs) = Inr (bad, (S_expecting_newline_3, sess_req s), cs)"
    using assms(1,2) by simp
  let ?data = "(c # cs) @ drop (length (c # cs)) (sess_data s)"
  let ?req = "\<lparr>req_method = to_verb (meth (sess_req s)), req_target = uri (sess_req s), req_body = c_string ?data\<rparr>"
  have buf: "buffer_string ?data = Inr (c_string ?data)" using assms(4) by (simp add: buffer_string_def)
  have fac: "(if bad = good then good_factory (sess_config s) (sess_routes s) (uri (sess_req s))
        (fall_back (sess_routes s) (sess_routes s (uri (sess_req s))))
      else Inr (fall_back (sess_routes s) (if bad = bad then sess_routes s ''bad'' else sess_routes s (uri (sess_req s))))) =
      Inr (Some (BadHandlerFactory p))"
    using assms(3) by (simp add: fall_back_def)
  have hdl: "handle_request (create (BadHandlerFactory p)) w ?req (sess_response s) = Inr (w, True, bad_response)"
    by (simp only: create.simps create_defs bad_handler_response)
  show ?thesis using handle_read_step [where to_verb = to_verb, OF parse buf fac hdl] by auto
qed

text \<open>
  An incomplete request is answered too.  When the bytes end before the blank line the session
  does not wait for more: it hands what it has to the handler routed for the URI read so far,
  or to the one for \<open>/\<close>, and reports -1.
\<close>

lemma indeterminate_is_answered:
  assumes "parse (sess_parser s, sess_req s) bytes = Inr (indeterminate, (p', req'), rest)"
    and "NUL \<in> set (bytes @ drop (length bytes) (sess_data s))"
    and "fall_back (sess_routes s) (sess_routes s (uri req')) = Some f"
    and "handle_request (create f) w \<lparr>req_method = to_verb (meth req'), req_target = uri req',
        req_body = c_string (bytes @ drop (length bytes) (sess_data s))\<rparr> (sess_response s) = Inr (w', st, res')"
  shows "\<exists>s'. handle_read to_verb s w False bytes = Inr (- 1, Some s', w') \<and> sess_response s' = res' \<and>
    sess_parser s' = p' \<and> sess_req s' = req'"
proof -
  let ?data = "bytes @ drop (length bytes) (sess_data s)"
  have buf: "buffer_string ?data = Inr (c_string ?data)" using assms(2) by (simp add: buffer_string_def)
  have fac: "(if indeterminate = good then good_factory (sess_config s) (sess_routes s) (uri req')
        (fall_back (sess_routes s) (sess_routes s (uri req')))
      else Inr (fall_back (sess_routes s) (if indeterminate = bad then sess_routes s ''bad'' else sess_routes s (uri req')))) =
      Inr (Some f)"
    using assms(3) by simp
  show ?thesis using handle_read_step [where to_verb = to_verb, OF assms(1) buf fac assms(4)] by auto
qed

subsection \<open>The text of a request in the log\<close>

lemma consume_stops_text_only:
  "text_only (snd s) \<Longrightarrow> consume s c = Inr (s', v) \<Longrightarrow> v \<noteq> indeterminate \<Longrightarrow> text_only (snd s')"
  by (cases "(s, c)" rule: consume.cases)
    (auto simp: expect_def consume_header_defs Let_def bind_res_eq_Inr split: if_splits)

lemma parse_text_only:
  "text_only (snd s) \<Longrightarrow> parse s bytes = Inr (v, s', rest) \<Longrightarrow> text_only (snd s')"
proof (induction s bytes rule: parse.induct)
  case (2 s c cs)
  then obtain s1 v1 where step: "consume s c = Inr (s1, v1)" by (auto simp: bind_res_eq_Inr)
  then have "text_only (snd s1)"
    using 2(2) consume_text_only consume_stops_text_only by (cases "v1 = indeterminate") blast+
  with 2 step show ?case by (cases "v1 = indeterminate") (auto split: if_splits)
qed simp

lemma show_nat_no_line [simp]: "LF \<notin> set (show_nat n)" "CR \<notin> set (show_nat n)"
  using show_nat_digits [of LF n] show_nat_digits [of CR n] by (auto simp: isdigit_def)

lemma to_string_no_line [simp]: "LF \<notin> set (to_string i)" "CR \<notin> set (to_string i)"
  by (simp_all add: to_string_def)

lemma text_no_line: "list_all is_text_char s \<Longrightarrow> LF \<notin> set s \<and> CR \<notin> set s"
  by (metis list_all_iff text_char_facts(1,2))

lemma token_no_line: "list_all is_token_char s \<Longrightarrow> LF \<notin> set s \<and> CR \<notin> set s"
  by (metis list_all_iff text_char_facts(1,2) token_char_facts(5))

lemma header_info_lines:
  "list_all wf_header hs \<Longrightarrow> count_list (header_info i hs) LF = 3 * length hs \<and> CR \<notin> set (header_info i hs)"
  by (induction hs arbitrary: i) (auto simp: wf_header_def dest!: text_no_line token_no_line)

text \<open>
  Whatever bytes a fresh session parses and whatever the verdict, the text of the request has
  exactly the three lines of method, URI and version and three lines for each header read.
\<close>

lemma request_info_lines:
  assumes "parse (S_method_start, req0) bytes = Inr (v, (st, req), rest)" and "fresh req0"
  shows "count_list (request_info req) LF = 3 + 3 * length (headers req) \<and> CR \<notin> set (request_info req) \<and>
    LF \<notin> set (uri req) \<and> SP \<notin> set (uri req)"
proof -
  have "text_only req0" using assms(2) by (simp add: fresh_def text_only_def)
  then have t: "text_only req" using parse_text_only [OF _ assms(1)] by simp
  have m: "LF \<notin> set (meth req)" "CR \<notin> set (meth req)" using t token_no_line by (auto simp: text_only_def)
  have "list_all is_text_char (uri req)" "SP \<notin> set (uri req)" using t by (auto simp: text_only_def list_all_iff)
  then have u: "LF \<notin> set (uri req)" "CR \<notin> set (uri req)" "SP \<notin> set (uri req)" using text_no_line by auto
  have "count_list (header_info 0 (headers req)) LF = 3 * length (headers req)" "CR \<notin> set (header_info 0 (headers req))"
    using t header_info_lines [of "headers req" 0] by (auto simp: text_only_def)
  with m u show ?thesis by (simp add: request_info_def)
qed

end
