(* ===== verification/Connections.thy ===== *)
theory Connections
  imports Session
begin

section \<open>The life of a connection and of the server\<close>

text \<open>
  The asynchronous operations of src/session.cc and src/server.cc as steps.  A session has one
  operation outstanding at any time: the read \<open>start\<close> or \<open>handle_write\<close> begins, or the write
  \<open>handle_read\<close> begins; its completion calls the handler of Session.thy, and a session that has
  executed \<open>delete this\<close> is gone.  The server has at most one \<open>async_accept\<close> outstanding.  What
  Boost.Asio reports, an error or the bytes of a read, is the event; the completion handlers
  run one at a time, in any order the events come in; Concurrency.thy has their overlap on the
  files.
\<close>

subsection \<open>One connection\<close>

datatype pending = Reading | Writing

text \<open>\<open>conn_shut\<close>: the socket has been shut down; \<open>conn_sent\<close>: the responses whose write completed.\<close>

record connection =
  conn_session :: session
  conn_pending :: pending
  conn_shut :: bool
  conn_sent :: "http_response list"

datatype event = Read_Done bool string | Write_Done bool

text \<open>\<open>session::start\<close>\<close>

definition start :: "session \<Rightarrow> connection" where
  "start s = \<lparr>conn_session = s, conn_pending = Reading, conn_shut = False, conn_sent = []\<rparr>"

definition read_done ::
    "(string \<Rightarrow> verb) \<Rightarrow> connection \<Rightarrow> world \<Rightarrow> bool \<Rightarrow> string \<Rightarrow> (connection option \<times> world) result" where
  "read_done to_verb c w error bytes =
     bind_res (handle_read to_verb (conn_session c) w error bytes) (\<lambda>(result, s', w').
       Inr (case s' of
              None \<Rightarrow> None
            | Some s \<Rightarrow> Some (c\<lparr>conn_session := s, conn_pending := Writing\<rparr>), w'))"

definition write_done :: "connection \<Rightarrow> bool \<Rightarrow> connection option" where
  "write_done c error =
     (case handle_write (conn_session c) error of
        (None, _) \<Rightarrow> None
      | (Some s, shut) \<Rightarrow>
          Some (c\<lparr>conn_session := s, conn_pending := Reading, conn_shut := shut,
                  conn_sent := conn_sent c @ [sess_response s]\<rparr>))"

fun conn_event ::
    "(string \<Rightarrow> verb) \<Rightarrow> connection \<Rightarrow> world \<Rightarrow> event \<Rightarrow> (connection option \<times> world) result" where
  "conn_event to_verb c w (Read_Done error bytes) = read_done to_verb c w error bytes"
| "conn_event to_verb c w (Write_Done error) = Inr (write_done c error, w)"

text \<open>
  The events the socket can report: the completion of the operation that is outstanding, of a
  read with at least one byte and no more than the buffer takes, and of a write only as an error
  once the socket is shut down.
\<close>

fun enabled :: "connection \<Rightarrow> event \<Rightarrow> bool" where
  "enabled c (Read_Done error bytes) =
     (conn_pending c = Reading \<and> (error \<or> bytes \<noteq> [] \<and> length bytes \<le> max_length))"
| "enabled c (Write_Done error) = (conn_pending c = Writing \<and> (conn_shut c \<longrightarrow> error))"

subsection \<open>The server\<close>

text \<open>
  \<open>srv_next\<close> is the session of the outstanding accept, if there is one; the sessions accepted
  stay at their place in the list, \<open>None\<close> once they are deleted.
\<close>

record server =
  srv_config :: NginxConfig
  srv_next :: "session option"
  srv_conns :: "connection option list"
  srv_world :: world

text \<open>The constructor, which ends in \<open>start_accept\<close>.\<close>

definition new_server :: "NginxConfig \<Rightarrow> memory \<Rightarrow> world \<Rightarrow> server result" where
  "new_server cfg junk w =
     bind_res (start_accept cfg junk) (\<lambda>s.
       Inr \<lparr>srv_config = cfg, srv_next = Some s, srv_conns = [], srv_world = w\<rparr>)"

datatype server_event = Accepted bool memory | On nat event

definition accept_done :: "server \<Rightarrow> session \<Rightarrow> bool \<Rightarrow> memory \<Rightarrow> server result" where
  "accept_done srv s error junk =
     bind_res (handle_accept (srv_config srv) junk s error) (\<lambda>(accepting, started, nxt).
       Inr (srv\<lparr>srv_next := nxt,
                srv_conns := srv_conns srv @ (case started of None \<Rightarrow> [] | Some s \<Rightarrow> [Some (start s)])\<rparr>))"

fun server_step :: "(string \<Rightarrow> verb) \<Rightarrow> server \<Rightarrow> server_event \<Rightarrow> server result" where
  "server_step to_verb srv (Accepted error junk) =
     (case srv_next srv of
        None \<Rightarrow> Inr srv
      | Some s \<Rightarrow> accept_done srv s error junk)"
| "server_step to_verb srv (On i ev) =
     (if i < length (srv_conns srv)
      then case srv_conns srv ! i of
             None \<Rightarrow> Inr srv
           | Some c \<Rightarrow>
               bind_res (conn_event to_verb c (srv_world srv) ev) (\<lambda>(c', w').
                 Inr (srv\<lparr>srv_conns := (srv_conns srv)[i := c'], srv_world := w'\<rparr>))
      else Inr srv)"

fun server_enabled :: "server \<Rightarrow> server_event \<Rightarrow> bool" where
  "server_enabled srv (Accepted error junk) = (srv_next srv \<noteq> None \<and> length (mem_data junk) = max_length)"
| "server_enabled srv (On i ev) =
     (i < length (srv_conns srv) \<and> (case srv_conns srv ! i of None \<Rightarrow> False | Some c \<Rightarrow> enabled c ev))"

inductive server_reaches :: "(string \<Rightarrow> verb) \<Rightarrow> NginxConfig \<Rightarrow> server \<Rightarrow> bool"
  for to_verb :: "string \<Rightarrow> verb" and cfg :: NginxConfig where
  start: "length (mem_data junk) = max_length \<Longrightarrow> new_server cfg junk w = Inr srv \<Longrightarrow> server_reaches to_verb cfg srv"
| step: "server_reaches to_verb cfg srv \<Longrightarrow> server_enabled srv ev \<Longrightarrow> server_step to_verb srv ev = Inr srv' \<Longrightarrow>
    server_reaches to_verb cfg srv'"

subsection \<open>What every reachable state keeps\<close>

text \<open>
  A connection has the configuration and the routes of the server and a full buffer; its socket
  is shut down once its response is out; until its first read its parser and request are fresh.
\<close>

definition conn_inv :: "NginxConfig \<Rightarrow> routes \<Rightarrow> connection \<Rightarrow> bool" where
  "conn_inv cfg routes c \<longleftrightarrow>
     sess_config (conn_session c) = cfg \<and> sess_routes (conn_session c) = routes \<and>
     length (sess_data (conn_session c)) = max_length \<and>
     (conn_shut c \<longleftrightarrow> conn_sent c \<noteq> []) \<and> length (conn_sent c) \<le> 1 \<and>
     (conn_pending c = Reading \<and> \<not> conn_shut c \<longrightarrow>
        sess_parser (conn_session c) = S_method_start \<and> fresh (sess_req (conn_session c)))"

definition server_inv :: "NginxConfig \<Rightarrow> routes \<Rightarrow> server \<Rightarrow> bool" where
  "server_inv cfg routes srv \<longleftrightarrow>
     srv_config srv = cfg \<and>
     (\<forall>s. srv_next srv = Some s \<longrightarrow> conn_inv cfg routes (start s)) \<and>
     (\<forall>c. Some c \<in> set (srv_conns srv) \<longrightarrow> conn_inv cfg routes c)"

lemma handle_read_error [simp]: "handle_read to_verb s w True bytes = Inr (- 1, None, w)"
  by (simp add: handle_read_def)

lemma handle_read_keeps:
  assumes "handle_read to_verb s w error bytes = Inr (result, Some s', w')"
  shows "\<not> error \<and> sess_config s' = sess_config s \<and> sess_routes s' = sess_routes s \<and>
    sess_data s' = bytes @ drop (length bytes) (sess_data s)"
  using assms by (auto simp: handle_read_def Let_def bind_res_eq_Inr split: if_splits option.splits)

lemma conn_event_inv:
  assumes "conn_inv cfg routes c" and "enabled c ev"
    and "conn_event to_verb c w ev = Inr (Some c', w')"
  shows "conn_inv cfg routes c'"
proof (cases ev)
  case (Read_Done error bytes)
  with assms(3) obtain result s where r: "handle_read to_verb (conn_session c) w error bytes = Inr (result, Some s, w')"
    and c': "c' = c\<lparr>conn_session := s, conn_pending := Writing\<rparr>"
    by (auto simp: read_done_def bind_res_eq_Inr split: option.splits)
  from handle_read_keeps [OF r] assms(1,2) Read_Done show ?thesis
    by (auto simp: conn_inv_def c')
next
  case (Write_Done error)
  with assms show ?thesis
    by (cases error) (auto simp: conn_inv_def write_done_def handle_write_def)
qed

lemma start_accept_inv:
  "start_accept cfg junk = Inr s \<Longrightarrow> length (mem_data junk) = max_length \<Longrightarrow>
   \<exists>routes. configMap cfg = Inr routes \<and> conn_inv cfg routes (start s)"
  by (auto simp: start_accept_def bind_res_eq_Inr conn_inv_def start_def)

lemma server_step_inv:
  assumes I: "server_inv cfg routes srv" and cfg: "configMap cfg = Inr routes"
    and en: "server_enabled srv ev" and step: "server_step to_verb srv ev = Inr srv'"
  shows "server_inv cfg routes srv'"
proof (cases ev)
  case (Accepted error junk)
  with en obtain s where s: "srv_next srv = Some s" and j: "length (mem_data junk) = max_length" by auto
  show ?thesis
  proof (cases error)
    case True
    with step Accepted s I show ?thesis
      by (auto simp: accept_done_def handle_accept_def server_inv_def)
  next
    case False
    with step Accepted s I obtain n where n: "start_accept cfg junk = Inr n"
      and srv': "srv' = srv\<lparr>srv_next := Some n, srv_conns := srv_conns srv @ [Some (start s)]\<rparr>"
      by (auto simp: accept_done_def handle_accept_def server_inv_def bind_res_eq_Inr)
    from start_accept_inv [OF n j] cfg have "conn_inv cfg routes (start n)" by auto
    with I s show ?thesis by (auto simp: server_inv_def srv')
  qed
next
  case (On i e)
  with en obtain c where i: "i < length (srv_conns srv)" and c: "srv_conns srv ! i = Some c" and e: "enabled c e"
    by (auto split: option.splits)
  with step On obtain c' w' where ce: "conn_event to_verb c (srv_world srv) e = Inr (c', w')"
    and srv': "srv' = srv\<lparr>srv_conns := (srv_conns srv)[i := c'], srv_world := w'\<rparr>"
    by (auto simp: bind_res_eq_Inr)
  have "Some c \<in> set (srv_conns srv)" using i c by (metis nth_mem)
  with I have "conn_inv cfg routes c" by (simp add: server_inv_def)
  with ce e have "\<And>d. c' = Some d \<Longrightarrow> conn_inv cfg routes d" using conn_event_inv by blast
  with I show ?thesis
    using set_update_subset_insert [of "srv_conns srv" i c'] by (auto simp: server_inv_def srv')
qed

lemma server_reaches_inv:
  "server_reaches to_verb cfg srv \<Longrightarrow> \<exists>routes. configMap cfg = Inr routes \<and> server_inv cfg routes srv"
proof (induction rule: server_reaches.induct)
  case (start junk w srv)
  then obtain s where "start_accept cfg junk = Inr s"
    "srv = \<lparr>srv_config = cfg, srv_next = Some s, srv_conns = [], srv_world = w\<rparr>"
    by (auto simp: new_server_def bind_res_eq_Inr)
  with start_accept_inv [OF this(1) start(1)] show ?case by (auto simp: server_inv_def)
next
  case (step srv ev srv')
  then show ?case using server_step_inv by blast
qed

text \<open>A server that has accepted one connection, all its memory zero.\<close>

definition one_client :: "NginxConfig \<Rightarrow> routes \<Rightarrow> world \<Rightarrow> server" where
  "one_client cfg routes w =
     (let s = new_session cfg routes (filled (replicate 1024 NUL))
      in \<lparr>srv_config = cfg, srv_next = Some s, srv_conns = [Some (start s)], srv_world = w\<rparr>)"

lemma client_reaches:
  assumes "configMap cfg = Inr routes" and junk: "length (mem_data junk) = max_length"
  shows "server_reaches to_verb cfg \<lparr>srv_config = cfg, srv_next = Some (new_session cfg routes junk),
    srv_conns = [Some (start (new_session cfg routes junk))], srv_world = w\<rparr>"
proof -
  let ?s = "new_session cfg routes junk"
  let ?srv = "\<lparr>srv_config = cfg, srv_next = Some ?s, srv_conns = [], srv_world = w\<rparr>"
  have acc: "start_accept cfg junk = Inr ?s" by (simp add: start_accept_def assms)
  then have start: "new_server cfg junk w = Inr ?srv" by (simp add: new_server_def)
  have "server_reaches to_verb cfg ?srv" by (rule server_reaches.start [OF junk start])
  then show ?thesis
    by (rule server_reaches.step [where ev = "Accepted False junk"])
      (simp_all add: junk accept_done_def handle_accept_def acc)
qed

lemma one_client_reaches:
  "configMap cfg = Inr routes \<Longrightarrow> server_reaches to_verb cfg (one_client cfg routes w)"
  unfolding one_client_def Let_def by (rule client_reaches) (simp_all add: max_length_def)

definition sample_server :: "routes \<Rightarrow> server" where
  "sample_server routes = one_client two_crud_config routes sample_world"

lemma sample_server_reaches:
  "\<exists>routes. configMap two_crud_config = Inr routes \<and> server_reaches to_verb two_crud_config (sample_server routes)"
  using two_crud_routes one_client_reaches by (auto simp: sample_server_def)

text \<open>
  C24: What a running server keeps.  In every reachable state each connection has the server's
  configuration and its routes and a full 1024-byte buffer, its socket is shut down exactly
  when its one response is out, and its parser and request are fresh until the first read.
\<close>

theorem server_keeps_connections:
  assumes "server_reaches to_verb cfg srv"
  shows "srv_config srv = cfg \<and>
    (\<exists>routes. configMap cfg = Inr routes \<and> (\<forall>c. Some c \<in> set (srv_conns srv) \<longrightarrow> conn_inv cfg routes c))"
  using server_reaches_inv [OF assms] by (auto simp: server_inv_def)

theorem server_keeps_connections_witness:
  "\<exists>routes. configMap two_crud_config = Inr routes \<and>
    conn_inv two_crud_config routes (start (new_session two_crud_config routes (filled (replicate 1024 NUL))))"
proof -
  obtain routes where r: "server_reaches (\<lambda>_. verb_get) two_crud_config (sample_server routes)"
    "configMap two_crud_config = Inr routes"
    using sample_server_reaches by blast
  from server_keeps_connections [OF r(1)] r(2) show ?thesis by (auto simp: sample_server_def one_client_def Let_def)
qed

subsection \<open>A read always reaches a handler\<close>

lemma static_file_loop_path:
  "static_file_loop ss = Inr m \<Longrightarrow> \<exists>p. first_path ''StaticHandler'' ss = Inr p"
proof (induction ss)
  case (Cons s ss)
  then obtain b where b: "is_location ''StaticHandler'' s = Inr b" by (auto simp: bind_res_eq_Inr)
  with Cons show ?case by (cases b) (auto simp: bind_res_eq_Inr)
qed simp

lemma routes_getters:
  assumes "configMap cfg = Inr routes"
  obtains static_path_map cp mp ty where
    "get_static_file_path cfg = Inr static_path_map" "get_crud_path cfg = Inr cp" "routes cp \<noteq> None"
    "get_markdown_path cfg = Inr mp" "routes mp \<noteq> None" "get_request_type cfg target = Inr ty" "routes ''/'' \<noteq> None"
proof -
  from assms obtain m ep cp hp sp mp where g: "get_static_file_path cfg = Inr m" "get_echo_path cfg = Inr ep"
      "get_crud_path cfg = Inr cp" "get_health_path cfg = Inr hp" "get_sleep_path cfg = Inr sp" "get_markdown_path cfg = Inr mp"
    and r: "routes cp \<noteq> None" "routes mp \<noteq> None" "routes ''/'' \<noteq> None"
    by (auto simp: configMap_def bind_res_eq_Inr add_route_eq)
  obtain p where "get_static_serving_path cfg = Inr p"
    using static_file_loop_path g(1) by (auto simp: get_static_file_path_def get_static_serving_path_def)
  with g have "\<exists>ty. get_request_type cfg target = Inr ty" by (simp add: get_request_type_def)
  with g r that show ?thesis by blast
qed

text \<open>A request for the echo path is typed as an echo.\<close>

lemma echo_request_type:
  assumes "configMap cfg = Inr routes" and "get_echo_path cfg = Inr target" and "target \<noteq> []"
  shows "get_request_type cfg target = Inr type_echo"
proof -
  obtain ty where "get_request_type cfg target = Inr ty" using routes_getters [OF assms(1), of target] by metis
  with assms(2,3) show ?thesis by (auto simp: get_request_type_def bind_res_eq_Inr)
qed

text \<open>The factory of a read is one of the routes or one made for a configured file.\<close>

definition routed :: "routes \<Rightarrow> handler_factory \<Rightarrow> bool" where
  "routed routes f \<longleftrightarrow> f \<in> ran routes \<or> (\<exists>file. f = StaticHandlerFactory file)"

lemma fall_back_routed: "routes ''/'' \<noteq> None \<Longrightarrow> \<exists>f. fall_back routes (routes t) = Some f \<and> routed routes f"
  by (auto simp: fall_back_def routed_def ran_def split: option.split)

lemma good_factory_defined:
  assumes "configMap cfg = Inr routes"
  shows "\<exists>f. good_factory cfg routes target (fall_back routes (routes t)) = Inr (Some f) \<and> routed routes f"
  using assms
proof (rule routes_getters [of _ _ target])
  fix m cp mp ty
  assume g: "get_static_file_path cfg = Inr m" "get_crud_path cfg = Inr cp" "routes cp \<noteq> None"
    "get_markdown_path cfg = Inr mp" "routes mp \<noteq> None" "get_request_type cfg target = Inr ty" "routes ''/'' \<noteq> None"
  then show ?thesis
    using fall_back_routed [of routes t]
    by (cases ty) (auto simp: good_factory_def routed_def ran_def split: option.splits)
qed

lemma handle_read_reaches:
  assumes routes: "configMap (sess_config s) = Inr (sess_routes s)"
    and parse: "parse (sess_parser s, sess_req s) bytes = Inr (v, (p', req'), rest)"
    and buf: "buffer_string (bytes @ drop (length bytes) (sess_data s)) = Inr body"
  shows "\<exists>f. routed (sess_routes s) f \<and> handle_read to_verb s w False bytes =
    bind_res (handle_request (create f) w \<lparr>req_method = to_verb (meth req'), req_target = uri req', req_body = body\<rparr>
      (sess_response s)) (\<lambda>(w', st, res').
      Inr (if v = good then 0 else if v = bad then 1 else - 1,
        Some (s\<lparr>sess_data := bytes @ drop (length bytes) (sess_data s), sess_parser := p', sess_req := req',
          sess_request := \<lparr>req_method = to_verb (meth req'), req_target = uri req', req_body = body\<rparr>,
          sess_response := res'\<rparr>), w'))"
proof -
  let ?t = "if v = bad then ''bad'' else uri req'"
  let ?g = "fall_back (sess_routes s) (sess_routes s ?t)"
  have "\<exists>f. (if v = good then good_factory (sess_config s) (sess_routes s) (uri req') ?g else Inr ?g) = Inr (Some f) \<and>
      routed (sess_routes s) f"
  proof (cases "v = good")
    case True
    then show ?thesis using good_factory_defined [OF routes, of "uri req'" ?t] by simp
  next
    case False
    have "sess_routes s ''/'' \<noteq> None" by (rule routes_getters [OF routes]) blast
    then show ?thesis using False fall_back_routed [of "sess_routes s" ?t] by simp
  qed
  then obtain f where f: "(if v = good then good_factory (sess_config s) (sess_routes s) (uri req') ?g else Inr ?g) = Inr (Some f)"
    "routed (sess_routes s) f" by blast
  have "(if v = bad then sess_routes s ''bad'' else sess_routes s (uri req')) = sess_routes s ?t" by simp
  with f show ?thesis by (intro exI [of _ f]) (simp only: handle_read_def parse buf Let_def bind_res_simps prod.case option.case if_False simp_thms)
qed

text \<open>
  C7: No read of a running server meets a null handler.  In every state the server reaches, the
  completion of a read on any of its connections is the answer of the handler of one of its
  routes, or of a static handler, to the request read; it has no result only when the parser
  overflows a version number, the buffer holds no NUL to end the C string, or that handler has
  none.
\<close>

theorem server_read_reaches_handler:
  assumes "server_reaches to_verb cfg srv" and "Some c \<in> set (srv_conns srv)"
    and "parse (sess_parser (conn_session c), sess_req (conn_session c)) bytes = Inr (v, (p', req'), rest)"
    and "buffer_string (bytes @ drop (length bytes) (sess_data (conn_session c))) = Inr body"
  shows "\<exists>f routes. configMap cfg = Inr routes \<and> routed routes f \<and> read_done to_verb c w False bytes =
    bind_res (handle_request (create f) w \<lparr>req_method = to_verb (meth req'), req_target = uri req', req_body = body\<rparr>
      (sess_response (conn_session c))) (\<lambda>(w', st, res').
      Inr (Some (c\<lparr>conn_session := (conn_session c)
          \<lparr>sess_data := bytes @ drop (length bytes) (sess_data (conn_session c)), sess_parser := p', sess_req := req',
           sess_request := \<lparr>req_method = to_verb (meth req'), req_target = uri req', req_body = body\<rparr>,
           sess_response := res'\<rparr>, conn_pending := Writing\<rparr>), w'))"
proof -
  obtain routes where r: "configMap cfg = Inr routes" and "server_inv cfg routes srv"
    using server_reaches_inv [OF assms(1)] by blast
  then have "conn_inv cfg routes c" using assms(2) by (simp add: server_inv_def)
  with r have "configMap (sess_config (conn_session c)) = Inr (sess_routes (conn_session c))"
    and s: "sess_routes (conn_session c) = routes" by (simp_all add: conn_inv_def)
  from handle_read_reaches [where to_verb = to_verb and w = w, OF this(1) assms(3,4)] obtain f where
    f: "routed routes f" and h: "handle_read to_verb (conn_session c) w False bytes =
    bind_res (handle_request (create f) w \<lparr>req_method = to_verb (meth req'), req_target = uri req', req_body = body\<rparr>
      (sess_response (conn_session c))) (\<lambda>(w', st, res').
      Inr (if v = good then 0 else if v = bad then 1 else - 1,
        Some ((conn_session c)\<lparr>sess_data := bytes @ drop (length bytes) (sess_data (conn_session c)), sess_parser := p', sess_req := req',
          sess_request := \<lparr>req_method = to_verb (meth req'), req_target = uri req', req_body = body\<rparr>,
          sess_response := res'\<rparr>), w'))" using s by blast
  show ?thesis
    by (intro exI [of _ f] exI [of _ routes] conjI r f) (simp add: read_done_def h bind_res_assoc split_def)
qed

theorem server_read_reaches_handler_witness:
  "\<exists>routes f k. configMap two_crud_config = Inr routes \<and>
    read_done (\<lambda>_. verb_get) (start (new_session two_crud_config routes (filled (replicate 1024 NUL)))) sample_world False
      echo_request_bytes =
    bind_res (handle_request (create f) sample_world
      \<lparr>req_method = verb_get, req_target = ''/echo/x'', req_body = echo_request_bytes\<rparr> empty_response) k"
proof -
  obtain routes where r: "server_reaches (\<lambda>_. verb_get) two_crud_config (sample_server routes)"
    "configMap two_crud_config = Inr routes"
    using sample_server_reaches by blast
  let ?c = "start (new_session two_crud_config routes (filled (replicate 1024 NUL)))"
  let ?req = "\<lparr>meth = ''GET'', uri = ''/echo/x'', http_version_major = 1, http_version_minor = 1, headers = []\<rparr>"
  have "Some ?c \<in> set (srv_conns (sample_server routes))" by (simp add: sample_server_def one_client_def Let_def)
  moreover have "parse (S_method_start, empty_request) echo_request_bytes = Inr (good, (S_expecting_newline_3, ?req), [])"
    by code_simp
  then have "parse (sess_parser (conn_session ?c), sess_req (conn_session ?c)) echo_request_bytes =
      Inr (good, (S_expecting_newline_3, ?req), [])" by (simp add: start_def)
  moreover have "buffer_string (echo_request_bytes @ drop (length echo_request_bytes) (replicate 1024 NUL)) =
      Inr echo_request_bytes" by code_simp
  then have "buffer_string (echo_request_bytes @ drop (length echo_request_bytes) (sess_data (conn_session ?c))) =
      Inr echo_request_bytes" by (simp add: start_def)
  ultimately have "\<exists>f k. read_done (\<lambda>_. verb_get) ?c sample_world False echo_request_bytes =
      bind_res (handle_request (create f) sample_world
        \<lparr>req_method = verb_get, req_target = uri ?req, req_body = echo_request_bytes\<rparr>
        (sess_response (conn_session ?c))) k"
    using server_read_reaches_handler [OF r(1), of ?c echo_request_bytes] by blast
  with r(2) show ?thesis by (auto simp: start_def)
qed

subsection \<open>A connection answers once\<close>

text \<open>The runs of one connection, the other connections changing the world in between.\<close>

inductive conn_runs :: "(string \<Rightarrow> verb) \<Rightarrow> connection \<Rightarrow> event list \<Rightarrow> connection option \<Rightarrow> bool"
  for to_verb :: "string \<Rightarrow> verb" where
  stop: "conn_runs to_verb c [] (Some c)"
| gone: "enabled c ev \<Longrightarrow> conn_event to_verb c w ev = Inr (None, w') \<Longrightarrow> conn_runs to_verb c [ev] None"
| more: "enabled c ev \<Longrightarrow> conn_event to_verb c w ev = Inr (Some c', w') \<Longrightarrow> conn_runs to_verb c' evs d \<Longrightarrow>
    conn_runs to_verb c (ev # evs) d"

definition conn_rank :: "connection \<Rightarrow> nat" where
  "conn_rank c = (if conn_shut c then 0 else 2) + (if conn_pending c = Reading then 2 else 1)"

lemma conn_event_rank:
  assumes "enabled c ev" and "conn_event to_verb c w ev = Inr (Some c', w')"
  shows "conn_rank c' < conn_rank c \<and> (ev = Write_Done False \<longrightarrow> \<not> conn_shut c \<and> conn_shut c') \<and>
    (conn_shut c \<longrightarrow> conn_shut c')"
proof (cases ev)
  case (Read_Done error bytes)
  with assms show ?thesis
    by (auto simp: conn_rank_def read_done_def bind_res_eq_Inr split: option.splits)
next
  case (Write_Done error)
  with assms show ?thesis
    by (cases error) (auto simp: conn_rank_def write_done_def handle_write_def)
qed

lemma conn_event_gone: "conn_event to_verb c w ev = Inr (None, w') \<Longrightarrow> ev \<noteq> Write_Done False"
  by (auto simp: write_done_def handle_write_def)

lemma conn_runs_bound:
  "conn_runs to_verb c evs d \<Longrightarrow>
   (case d of None \<Rightarrow> length evs \<le> conn_rank c | Some c' \<Rightarrow> length evs + conn_rank c' \<le> conn_rank c) \<and>
   length (filter (\<lambda>e. e = Write_Done False) evs) \<le> (if conn_shut c then 0 else 1)"
proof (induction rule: conn_runs.induct)
  case (gone c ev w w')
  then show ?case using conn_event_gone [OF gone(2)] by (simp add: conn_rank_def)
next
  case (more c ev w c' w' evs d)
  from conn_event_rank [OF more(1,2)] more(4) show ?case by (auto split: option.splits if_splits)
qed simp

lemma conn_rank_pos: "0 < conn_rank c"
  by (simp add: conn_rank_def)

text \<open>
  C21: Every connection ends and answers at most once.  Whatever the socket reports and the other
  connections do to the files, a session goes through at most four completions, at most one
  of them the successful write of a response; after four it has deleted itself.
\<close>

theorem connection_answers_once:
  assumes "conn_runs to_verb (start s) evs d"
  shows "length evs \<le> 4 \<and> length (filter (\<lambda>e. e = Write_Done False) evs) \<le> 1 \<and> (length evs = 4 \<longrightarrow> d = None)"
proof -
  have "conn_rank (start s) = 4" "\<not> conn_shut (start s)" by (simp_all add: conn_rank_def start_def)
  then show ?thesis
    using conn_runs_bound [OF assms] conn_rank_pos [of "the d"] by (cases d) auto
qed

theorem connection_answers_once_witness:
  "conn_runs (\<lambda>_. verb_other) (start (new_session two_crud_config sample_routes (filled (replicate 1024 NUL))))
      [Read_Done False '' GET'', Write_Done False, Read_Done True []] None \<and>
    length [Read_Done False '' GET'', Write_Done False, Read_Done True []] \<le> 4"
proof -
  let ?s = "new_session two_crud_config sample_routes (filled (replicate 1024 NUL))"
  have "parse (sess_parser ?s, sess_req ?s) '' GET'' = Inr (bad, (S_method_start, empty_request), ''GET'')"
    by simp
  then obtain s' where "handle_read (\<lambda>_. verb_other) ?s sample_world False '' GET'' = Inr (1, Some s', sample_world)"
    using handle_read_bad [of ?s "'' GET''" "(S_method_start, empty_request)" "''GET''" "[]"]
    by (auto simp: sample_routes_def)
  then have "conn_event (\<lambda>_. verb_other) (start ?s) sample_world (Read_Done False '' GET'') =
      Inr (Some ((start ?s)\<lparr>conn_session := s', conn_pending := Writing\<rparr>), sample_world)"
    by (simp add: read_done_def start_def)
  then have "conn_runs (\<lambda>_. verb_other) (start ?s) [Read_Done False '' GET'', Write_Done False, Read_Done True []] None"
    by (rule conn_runs.more [rotated])
      (auto simp: start_def max_length_def write_done_def handle_write_def read_done_def
        intro!: conn_runs.more [where w = sample_world] conn_runs.gone [where w = sample_world])
  from this connection_answers_once [OF this] show ?thesis by blast
qed

subsection \<open>The end of accepting\<close>

inductive server_runs :: "(string \<Rightarrow> verb) \<Rightarrow> server \<Rightarrow> server \<Rightarrow> bool" for to_verb :: "string \<Rightarrow> verb" where
  runs_refl: "server_runs to_verb srv srv"
| runs_trans: "server_runs to_verb srv srv' \<Longrightarrow> server_enabled srv' ev \<Longrightarrow> server_step to_verb srv' ev = Inr srv'' \<Longrightarrow>
    server_runs to_verb srv srv''"

lemma server_step_deaf:
  assumes "srv_next srv = None" and "server_enabled srv ev" and "server_step to_verb srv ev = Inr srv'"
  shows "srv_next srv' = None \<and> length (srv_conns srv') = length (srv_conns srv)"
  using assms by (cases ev) (auto simp: bind_res_eq_Inr split: option.splits)

text \<open>
  One failed accept ends accepting for good.  After an accept that completes with an error
  no accept is outstanding in any later state and no connection is ever added.
\<close>

lemma failed_accept_is_final:
  assumes "server_step to_verb srv (Accepted True junk) = Inr srv'" and "server_runs to_verb srv' srv''"
  shows "srv_next srv'' = None \<and> length (srv_conns srv'') = length (srv_conns srv)"
proof -
  have start: "srv_next srv' = None \<and> length (srv_conns srv') = length (srv_conns srv)"
    using assms(1) by (auto simp: accept_done_def handle_accept_def split: option.splits)
  from assms(2) start show ?thesis
    by (induction rule: server_runs.induct) (auto dest: server_step_deaf)
qed

end
