(* ===== verification/Process.thy ===== *)
theory Process
  imports Connections
begin

section \<open>The process\<close>

text \<open>
  src/server\_main.cc around the server: how the process starts and ends.  \<open>main\<close> runs the server on
  five threads of \<open>run_threads\<close> and waits for them; an asynchronous wait for SIGINT and SIGTERM is
  always outstanding, so the threads never run out of work.  An exception that a completion
  handler lets through leaves the function of its thread, which is \<open>std::terminate\<close>: the \<open>catch\<close>
  of \<open>main\<close> is on another thread.
\<close>

subsection \<open>What never throws\<close>

lemma config_getters_no_throw [no_throw]:
  "never_throws (is_location h s)" "never_throws (first_path h ss)" "never_throws (crud_path_loop ss p)"
  "never_throws (block_statements s)" "never_throws (root_loop l ts m)" "never_throws (static_block_loop l ss m)"
  "never_throws (static_file_loop ss)" "never_throws (args_block_loop ss m)" "never_throws (args_loop h ss m)"
proof -
  show 1: "never_throws (is_location h s)" for h s
    unfolding is_location_def by (intro no_throw)
  show "never_throws (first_path h ss)"
    by (induction ss) (auto intro!: never_throws_bind 1)
  show "never_throws (crud_path_loop ss p)"
    by (induction ss arbitrary: p) (auto intro!: never_throws_bind 1)
  show 2: "never_throws (block_statements s)" for s
    unfolding block_statements_def by (intro no_throw)
  show 3: "never_throws (root_loop l ts m)" for l ts m
    by (induction ts arbitrary: m) (auto intro!: never_throws_bind)
  show 4: "never_throws (static_block_loop l ss m)" for l ss m
    by (induction ss arbitrary: m) (auto intro!: never_throws_bind 3)
  show "never_throws (static_file_loop ss)"
    by (induction ss) (auto intro!: never_throws_bind 1 2 4)
  show 5: "never_throws (args_block_loop ss m)" for ss m
    by (induction ss arbitrary: m) (auto intro!: never_throws_bind)
  show "never_throws (args_loop h ss m)"
    by (induction ss arbitrary: m) (auto intro!: never_throws_bind 1 2 5)
qed

lemma routes_no_throw [no_throw]:
  "never_throws (get_static_file_path cfg)" "never_throws (get_static_serving_path cfg)" "never_throws (get_echo_path cfg)"
  "never_throws (get_crud_path cfg)" "never_throws (get_health_path cfg)" "never_throws (get_sleep_path cfg)"
  "never_throws (get_markdown_path cfg)" "never_throws (get_crud_args cfg)" "never_throws (get_markdown_args cfg)"
  unfolding get_static_file_path_def get_static_serving_path_def get_echo_path_def get_crud_path_def get_health_path_def
    get_sleep_path_def get_markdown_path_def get_crud_args_def get_markdown_args_def
  by (rule config_getters_no_throw)+



lemma config_parser_no_throw [no_throw]: "never_throws (Parse_file f cfg)"
proof -
  have top: "never_throws (stack_top st)" for st
    unfolding stack_top_def by (cases "config_stack st") (auto intro!: no_throw)
  have step: "never_throws (parse_step ty t st)" for ty t st
    unfolding parse_step_def normal_token_def start_block_def end_block_def end_of_file_def Let_def
    by (cases "config_stack st") (auto intro!: no_throw top)
  have "never_throws (Parse_loop input st)" for input st
  proof (induction input st rule: Parse_loop.induct)
    case (1 input st)
    obtain ty t rest where tok: "ParseToken input = (ty, t, rest)" by (cases "ParseToken input")
    show ?case
    proof (cases "parse_step ty t st")
      case (Inl e)
      then have "e = Undefined_Behaviour" using step by (metis never_throws_def)
      with Inl tok show ?thesis by (subst Parse_loop.simps) simp
    next
      case (Inr n)
      then show ?thesis using 1 [OF tok [symmetric] refl Inr] tok by (subst Parse_loop.simps) (cases n; simp)
    qed
  qed
  then show ?thesis
    unfolding Parse_file_def Parse_def by (intro no_throw)
qed




subsection \<open>The states of the process\<close>

text \<open>
  \<open>Exited n\<close>: the exit status; \<open>Aborted\<close>: ended by \<open>std::terminate\<close>; \<open>Undefined\<close>: anything may
  happen.  \<open>uncaught\<close> is what an exception makes of the process where it meets no \<open>catch\<close>, and
  \<open>caught\<close> where it meets the one of \<open>main\<close>.
\<close>

datatype process = Running server | Exited int | Aborted | Undefined

fun uncaught :: "failure \<Rightarrow> process" where
  "uncaught Undefined_Behaviour = Undefined"
| "uncaught Out_Of_Range = Aborted"
| "uncaught Filesystem_Error = Aborted"

fun caught :: "failure \<Rightarrow> process" where
  "caught Undefined_Behaviour = Undefined"
| "caught Out_Of_Range = Exited 0"
| "caught Filesystem_Error = Exited 0"

text \<open>\<open>main\<close> until its threads run; \<open>w\<close> is the world it starts in and \<open>junk\<close> its memory.\<close>

definition main :: "int \<Rightarrow> string option \<Rightarrow> (int \<Rightarrow> bool) \<Rightarrow> memory \<Rightarrow> world \<Rightarrow> process" where
  "main argc config_file bind_ok junk w =
     (case main_start argc config_file bind_ok of
        Inl e \<Rightarrow> caught e
      | Inr (Exit n) \<Rightarrow> Exited n
      | Inr (Serving port cfg routes) \<Rightarrow>
          (case new_server cfg junk w of Inl e \<Rightarrow> caught e | Inr srv \<Rightarrow> Running srv))"

text \<open>\<open>handler\<close> of the signals: \<open>exit(signum)\<close>.\<close>

definition signal_handler :: "int \<Rightarrow> process" where
  "signal_handler signum = Exited signum"

definition SIGINT :: int where "SIGINT = 2"
definition SIGTERM :: int where "SIGTERM = 15"

text \<open>What \<open>io_service::run\<close> can pick up on one of the threads.\<close>

datatype completion = Server_Event server_event | Signal int

fun run_step :: "(string \<Rightarrow> verb) \<Rightarrow> server \<Rightarrow> completion \<Rightarrow> process" where
  "run_step to_verb srv (Server_Event ev) =
     (case server_step to_verb srv ev of Inl e \<Rightarrow> uncaught e | Inr srv' \<Rightarrow> Running srv')"
| "run_step to_verb srv (Signal signum) = signal_handler signum"

fun completion_enabled :: "server \<Rightarrow> completion \<Rightarrow> bool" where
  "completion_enabled srv (Server_Event ev) = server_enabled srv ev"
| "completion_enabled srv (Signal signum) = (signum = SIGINT \<or> signum = SIGTERM)"

inductive process_reaches ::
    "(string \<Rightarrow> verb) \<Rightarrow> int \<Rightarrow> string option \<Rightarrow> (int \<Rightarrow> bool) \<Rightarrow> process \<Rightarrow> bool"
  for to_verb :: "string \<Rightarrow> verb" and argc :: int and config_file :: "string option" and bind_ok :: "int \<Rightarrow> bool" where
  launch: "length (mem_data junk) = max_length \<Longrightarrow>
    process_reaches to_verb argc config_file bind_ok (main argc config_file bind_ok junk w)"
| complete: "process_reaches to_verb argc config_file bind_ok (Running srv) \<Longrightarrow> completion_enabled srv ev \<Longrightarrow>
    process_reaches to_verb argc config_file bind_ok (run_step to_verb srv ev)"

subsection \<open>How the process ends\<close>





definition crud_config_text :: string where
  "crud_config_text = ''port 8080; location /api CrudHandler { data_path /data; }''"

definition crud_config :: NginxConfig where
  "crud_config = NginxConfig [NginxConfigStatement [''port'', ''8080''] None,
     NginxConfigStatement [''location'', ''/api'', ''CrudHandler'']
       (Some (NginxConfig [NginxConfigStatement [''data_path'', ''/data''] None]))]"

definition crud_server :: "routes \<Rightarrow> connection list \<Rightarrow> server" where
  "crud_server routes cs =
     \<lparr>srv_config = crud_config, srv_next = Some (new_session crud_config routes (filled (replicate 1024 NUL))),
      srv_conns = map Some cs, srv_world = sample_world\<rparr>"

lemma crud_config_facts:
  "Parse_file (Some crud_config_text) (NginxConfig []) = Inr (True, crud_config)"
  "get_port_num crud_config = Inr 8080" "get_crud_path crud_config = Inr ''/api''"
  "bind_res (configMap crud_config) (\<lambda>r. Inr (r ''/api'')) = Inr (Some (CrudHandlerFactory ''/api'' ''/data''))"
  by code_simp+

lemma crud_process:
  obtains routes where "configMap crud_config = Inr routes" "routes ''/api'' = Some (CrudHandlerFactory ''/api'' ''/data'')"
    "process_reaches to_verb 2 (Some crud_config_text) (\<lambda>_. True)
       (Running (crud_server routes [start (new_session crud_config routes (filled (replicate 1024 NUL)))]))"
    "server_reaches to_verb crud_config
       (crud_server routes [start (new_session crud_config routes (filled (replicate 1024 NUL)))])"
proof -
  let ?junk = "filled (replicate 1024 NUL)"
  obtain routes where r: "configMap crud_config = Inr routes" "routes ''/api'' = Some (CrudHandlerFactory ''/api'' ''/data'')"
    using crud_config_facts(4) by (auto simp: bind_res_eq_Inr)
  have junk: "length (mem_data ?junk) = max_length" by (simp add: max_length_def)
  have new: "new_server crud_config ?junk sample_world = Inr (crud_server routes [])"
    using r(1) by (simp add: new_server_def start_accept_def crud_server_def)
  have "main_start 2 (Some crud_config_text) (\<lambda>_. True) = Inr (Serving 8080 crud_config routes)"
    using r(1) crud_config_facts(1,2) by (simp add: main_start_def listen_port_def)
  then have "main 2 (Some crud_config_text) (\<lambda>_. True) ?junk sample_world = Running (crud_server routes [])"
    using new by (simp add: main_def)
  then have p: "process_reaches to_verb 2 (Some crud_config_text) (\<lambda>_. True) (Running (crud_server routes []))"
    using process_reaches.launch [OF junk] by metis
  have s: "server_reaches to_verb crud_config (crud_server routes [])"
    using server_reaches.start [OF junk new] .
  let ?srv = "crud_server routes [start (new_session crud_config routes ?junk)]"
  have acc: "server_step to_verb (crud_server routes []) (Accepted False ?junk) = Inr ?srv"
    using r(1) by (simp add: crud_server_def accept_done_def handle_accept_def start_accept_def)
  have en: "server_enabled (crud_server routes []) (Accepted False ?junk)"
    using junk by (simp add: crud_server_def)
  have "process_reaches to_verb 2 (Some crud_config_text) (\<lambda>_. True) (Running ?srv)"
    using process_reaches.complete [OF p, of "Server_Event (Accepted False ?junk)"] en
    by (simp add: acc del: server_step.simps server_enabled.simps)
  with r server_reaches.step [OF s en acc] that show thesis by blast
qed



subsection \<open>A request that ends the process\<close>

lemma path_comps_slash: "path_comps (p @ [SLASH]) = path_comps p"
proof -
  have "segments p \<noteq> []" for p by (induction p) (auto split: list.split)
  then have "segments (p @ [SLASH]) = segments p @ [[]]" for p
    by (induction p) (auto split: list.split)
  then show ?thesis by (simp add: path_comps_def)
qed

lemma delete_full_directory:
  assumes "real_ok fs" and "list_all plain_name (ns @ [e])" and "real_content fs (ns @ [e, n]) \<noteq> None"
  shows "real_file_exists fs (plain_path (ns @ [e]) @ [SLASH]) = Inr True"
    and "real_delete_file fs (plain_path (ns @ [e]) @ [SLASH]) = Inl Filesystem_Error"
proof -
  let ?p = "plain_path (ns @ [e]) @ [SLASH]" and ?q = "fs_cwd fs @ ns @ [e]"
  have comps: "path_comps ?p = ''.'' # ns @ [e]" using assms(2) by (simp only: path_comps_slash path_comps_plain)
  have start: "start_dir fs ?p = fs_cwd fs" by (simp add: start_dir_def absolute_def plain_path_def)
  have leaf: "lookup (fs_root fs) (?q @ [n]) \<noteq> None"
    using assms(3) by (auto simp: real_content_def file_at_def split: option.splits)
  then have dirs: "is_dir (fs_root fs) ?q" using parent_is_dir [of "fs_root fs" ?q n "[]"] by simp
  then obtain es where es: "lookup (fs_root fs) ?q = Some (Dir es)" by (auto simp: is_dir_lookup)
  have "es \<noteq> []" using leaf es lookup_append [of "fs_root fs" ?q "[n]"] by (auto split: option.splits)
  have up: "is_dir (fs_root fs) (fs_cwd fs @ ns)"
    using parent_is_dir [of "fs_root fs" "fs_cwd fs @ ns" e "[]"] es by simp
  have cwd: "is_dir (fs_root fs) (fs_cwd fs)" using assms(1) by (simp add: real_ok_def)
  have all: "list_all plain_name ns" "plain_name e" using assms(2) by simp_all
  show "real_file_exists fs ?p = Inr True"
    using walk_plain_dir [OF cwd assms(2)] dirs by (simp add: real_file_exists_def resolve_def comps start)
  have "butlast (''.'' # ns @ [e]) = ''.'' # ns" "last (''.'' # ns @ [e]) = e" by simp_all
  then show "real_delete_file fs ?p = Inl Filesystem_Error"
    using walk_plain_dir [OF cwd all(1) up] up es \<open>es \<noteq> []\<close>
    by (simp add: real_delete_file_def comps start Let_def del: walk.simps)
qed

lemma running_connection:
  assumes "server_reaches to_verb cfg srv" and "i < length (srv_conns srv)" and "srv_conns srv ! i = Some c"
    and "conn_pending c = Reading" and "\<not> conn_shut c" and "wf_request r"
  obtains routes where "configMap cfg = Inr routes" "sess_config (conn_session c) = cfg" "sess_routes (conn_session c) = routes"
    "parse (sess_parser (conn_session c), sess_req (conn_session c)) (print_request r @ rest) =
      Inr (good, (S_expecting_newline_3, r), rest)"
proof -
  obtain routes where r: "configMap cfg = Inr routes" and "server_inv cfg routes srv"
    using server_reaches_inv [OF assms(1)] by blast
  moreover have "Some c \<in> set (srv_conns srv)" using assms(2,3) by (metis nth_mem)
  ultimately have "conn_inv cfg routes c" by (simp add: server_inv_def)
  with assms(4-6) r that show thesis by (simp add: conn_inv_def parse_printed_fresh)
qed

text \<open>
  C17: One request ends the server.  A DELETE of a collection written with a slash at the end
  passes for the deletion of an instance, since the empty last component counts as a number;
  when the collection holds a file, the removal throws, nothing between there and the thread
  catches the exception, and the process aborts.
\<close>

theorem delete_collection_aborts:
  assumes "server_reaches to_verb cfg srv" and "i < length (srv_conns srv)" and "srv_conns srv ! i = Some c"
    and "conn_pending c = Reading" and "\<not> conn_shut c"
    and "wf_request r" and "NUL \<in> set (drop (length (print_request r @ rest)) (sess_data (conn_session c)))"
    and "get_request_type cfg (uri r) = Inr type_crud" and "get_crud_path cfg = Inr cp"
    and "configMap cfg = Inr routes" and "routes cp = Some (CrudHandlerFactory l (slashed ds))"
    and "to_verb (meth r) = verb_delete" and "uri r = SLASH # a @ SLASH # e @ [SLASH]" and "SLASH \<notin> set a"
    and "real_ok (world_fs (srv_world srv))" and "list_all plain_name (ds @ [e])"
    and "real_content (world_fs (srv_world srv)) (ds @ [e, n]) \<noteq> None"
  shows "run_step to_verb srv (Server_Event (On i (Read_Done False (print_request r @ rest)))) = Aborted"
proof -
  let ?s = "conn_session c" and ?bytes = "print_request r @ rest" and ?fs = "world_fs (srv_world srv)"
  obtain routes' where s: "configMap cfg = Inr routes'" "sess_config ?s = cfg" "sess_routes ?s = routes'"
    and parse: "parse (sess_parser ?s, sess_req ?s) ?bytes = Inr (good, (S_expecting_newline_3, r), rest)"
    using running_connection [OF assms(1-6)] by blast
  then have routes: "routes' = routes" using assms(10) by simp
  obtain body where buf: "buffer_string (?bytes @ drop (length ?bytes) (sess_data ?s)) = Inr body"
    using assms(7) by (auto simp: buffer_string_def)
  let ?req = "\<lparr>req_method = to_verb (meth r), req_target = uri r, req_body = body\<rparr>"
  have last: "last_component (e @ [SLASH]) = []"
    using last_component_append [of e "[]"] by (simp add: last_component_def)
  have path: "''.'' @ slashed ds @ ''/'' @ e @ [SLASH] = plain_path (ds @ [e]) @ [SLASH]"
    using plain_path_slashed(1) [of ds e] by (metis append_assoc)
  have "crud_handle_request real_filesystem (slashed ds) ?fs ?req res = Inl Filesystem_Error" for res
    using crud_dispatch [of ?req a "e @ [SLASH]" real_filesystem "slashed ds" ?fs res] assms(12-14)
      delete_full_directory [OF assms(15-17)]
    unfolding last path by (simp add: crud_delete_def real_filesystem_def)
  moreover have "good_factory cfg routes (uri r) f = Inr (Some (CrudHandlerFactory l (slashed ds)))" for f
    using assms(8,9,11) by (simp add: good_factory_def)
  ultimately have "handle_read to_verb ?s (srv_world srv) False ?bytes = Inl Filesystem_Error"
    using parse buf s routes by (simp add: handle_read_def Let_def)
  then show ?thesis using assms(2,3) by (simp add: read_done_def)
qed

definition delete_all_request :: request where
  "delete_all_request = \<lparr>meth = ''DELETE'', uri = ''/api/Shoes/'', http_version_major = 1, http_version_minor = 1,
     headers = []\<rparr>"

lemma delete_all_facts:
  "wf_request delete_all_request" "length (print_request delete_all_request @ []) = 31"
  "get_request_type crud_config (uri delete_all_request) = Inr type_crud" "real_ok sample_fs"
  "uri delete_all_request = SLASH # ''api'' @ SLASH # ''Shoes'' @ [SLASH]"
  "list_all plain_name ([''data''] @ [''Shoes''])" "real_content sample_fs ([''data''] @ [''Shoes'', ''1'']) \<noteq> None"
  by code_simp+

theorem delete_collection_aborts_witness:
  "\<exists>srv. process_reaches (\<lambda>_. verb_delete) 2 (Some crud_config_text) (\<lambda>_. True) (Running srv) \<and>
    run_step (\<lambda>_. verb_delete) srv (Server_Event (On 0 (Read_Done False (print_request delete_all_request @ [])))) = Aborted"
proof -
  obtain routes where r: "configMap crud_config = Inr routes" "routes ''/api'' = Some (CrudHandlerFactory ''/api'' ''/data'')"
    and p: "process_reaches (\<lambda>_. verb_delete) 2 (Some crud_config_text) (\<lambda>_. True)
       (Running (crud_server routes [start (new_session crud_config routes (filled (replicate 1024 NUL)))]))"
      "server_reaches (\<lambda>_. verb_delete) crud_config
       (crud_server routes [start (new_session crud_config routes (filled (replicate 1024 NUL)))])"
    using crud_process by blast
  let ?c = "start (new_session crud_config routes (filled (replicate 1024 NUL)))"
  have fs: "world_fs (srv_world (crud_server routes [?c])) = sample_fs" by (simp add: crud_server_def sample_world_def)
  have "run_step (\<lambda>_. verb_delete) (crud_server routes [?c])
      (Server_Event (On 0 (Read_Done False (print_request delete_all_request @ [])))) = Aborted"
    by (rule delete_collection_aborts [OF p(2) _ _ _ _ delete_all_facts(1) _ delete_all_facts(3)
          crud_config_facts(3) r(1) r(2) [folded sample_facts(5)] _ delete_all_facts(5) sample_facts(2), where c = ?c and n = "''1''"])
      (unfold fs, simp_all add: crud_server_def start_def delete_all_facts(2,4,6,7) [simplified])
  with p(1) show ?thesis by blast
qed

end
