(* ===== verification/Service.thy ===== *)
theory Service
  imports Process
begin

section \<open>Serving one client after the other\<close>

text \<open>
  Runs of the server in which each client connects, sends and is answered before the next one.
  An exchange is three completions, the accept, the read and the write, of src/server.cc and
  src/session.cc.
\<close>

fun serve :: "(string \<Rightarrow> verb) \<Rightarrow> server \<Rightarrow> server_event list \<Rightarrow> server result" where
  "serve to_verb srv [] = Inr srv"
| "serve to_verb srv (ev # evs) = bind_res (server_step to_verb srv ev) (\<lambda>srv'. serve to_verb srv' evs)"

lemma serve_append: "serve to_verb srv (evs @ evs') = bind_res (serve to_verb srv evs) (\<lambda>srv'. serve to_verb srv' evs')"
  by (induction evs arbitrary: srv) (simp_all add: bind_res_assoc)

text \<open>The connection number \<open>i\<close> is accepted, reads \<open>bytes\<close> and writes its response.\<close>

definition exchange :: "nat \<Rightarrow> memory \<Rightarrow> string \<Rightarrow> server_event list" where
  "exchange i junk bytes = [Accepted False junk, On i (Read_Done False bytes), On i (Write_Done False)]"

fun exchanges :: "nat \<Rightarrow> (memory \<times> string) list \<Rightarrow> server_event list" where
  "exchanges i [] = []"
| "exchanges i ((junk, bytes) # xs) = exchange i junk bytes @ exchanges (Suc i) xs"




subsection \<open>Every client is answered\<close>








end
