(* ===== verification/Crud_Service.thy ===== *)
theory Crud_Service
  imports Service
begin

section \<open>The CRUD service on the wire\<close>

text \<open>
  The whole server against the abstract resource store of Crud\_Handler.thy: clients that connect
  one after the other, each with one request as the bytes its socket delivers.
\<close>

subsection \<open>Requests for a collection\<close>







subsection \<open>One client after the other\<close>











end
