(* ===== verification/Interleaved_Service.thy ===== *)
theory Interleaved_Service
  imports Crud_Service
begin

section \<open>Clients that overlap\<close>

text \<open>
  The server of Connections.thy with any number of clients whose connecting, sending, reading and
  breaking off overlap as they like, against an abstract service: a resource store with the
  answers it still owes.  The completion handlers run one at a time; Concurrency.thy has their
  overlap on the files.
\<close>

subsection \<open>The abstract service\<close>

type_synonym outcome = "nat \<times> string"


text \<open>
  What is seen of it: a connection asks for an operation or for something that is not the
  collection's, gets its answer, or goes away.
\<close>

datatype service_label = Asked nat rest_op | Asked_Other nat | Delivered nat outcome | Dropped nat | Quiet




subsection \<open>What clients can do\<close>









subsection \<open>The server as a service\<close>







subsection \<open>One event\<close>














subsection \<open>Runs of the service\<close>

fun asked :: "service_label list \<Rightarrow> (nat \<times> rest_op) list" where
  "asked [] = []"
| "asked (Asked i rop # ls) = (i, rop) # asked ls"
| "asked (_ # ls) = asked ls"

lemma asked_append [simp]: "asked (xs @ ys) = asked xs @ asked ys"
  by (induction xs rule: asked.induct) simp_all












end
