(* ===== verification/Concurrency.thy ===== *)
theory Concurrency
  imports Crud_Handler
begin

section \<open>CRUD handlers on several threads\<close>

text \<open>
  \<open>server::run_threads\<close> lets five threads run completion handlers, and nothing in
  src/crud\_request\_handler.cc or src/real\_filesystem.cc locks, so two handlers may interleave
  between their calls of the file system.  Here a handler is the program of its calls, each call
  one atomic step, and a schedule says which thread moves next.
\<close>

subsection \<open>Programs of file system calls\<close>

datatype 'a fs_prog =
    Done 'a
  | Throw failure
  | File_Exists string "bool \<Rightarrow> 'a fs_prog"
  | Read_File string "string \<times> bool \<Rightarrow> 'a fs_prog"
  | Write_File string string "'a fs_prog"
  | Delete_File string "bool \<Rightarrow> 'a fs_prog"
  | List_Files string "string list \<Rightarrow> 'a fs_prog"

primrec bind_prog :: "'a fs_prog \<Rightarrow> ('a \<Rightarrow> 'b fs_prog) \<Rightarrow> 'b fs_prog" where
  "bind_prog (Done x) f = f x"
| "bind_prog (Throw e) f = Throw e"
| "bind_prog (File_Exists p k) f = File_Exists p (\<lambda>b. bind_prog (k b) f)"
| "bind_prog (Read_File p k) f = Read_File p (\<lambda>r. bind_prog (k r) f)"
| "bind_prog (Write_File p s k) f = Write_File p s (bind_prog k f)"
| "bind_prog (Delete_File p k) f = Delete_File p (\<lambda>b. bind_prog (k b) f)"
| "bind_prog (List_Files p k) f = List_Files p (\<lambda>ns. bind_prog (k ns) f)"

text \<open>A program run alone, and one call of it.\<close>

primrec run_prog :: "'fs filesystem_interface \<Rightarrow> 'a fs_prog \<Rightarrow> 'fs \<Rightarrow> ('fs \<times> 'a) result" where
  "run_prog F (Done x) fs = Inr (fs, x)"
| "run_prog F (Throw e) fs = Inl e"
| "run_prog F (File_Exists p k) fs = bind_res (file_exists F fs p) (\<lambda>b. run_prog F (k b) fs)"
| "run_prog F (Read_File p k) fs = bind_res (read_file F fs p []) (\<lambda>r. run_prog F (k r) fs)"
| "run_prog F (Write_File p s k) fs = bind_res (write_file F fs p s) (\<lambda>fs'. run_prog F k fs')"
| "run_prog F (Delete_File p k) fs = bind_res (delete_file F fs p) (\<lambda>(fs', b). run_prog F (k b) fs')"
| "run_prog F (List_Files p k) fs = bind_res (list_files F fs p) (\<lambda>ns. run_prog F (k ns) fs)"

fun prog_step :: "'fs filesystem_interface \<Rightarrow> 'fs \<Rightarrow> 'a fs_prog \<Rightarrow> ('fs \<times> 'a fs_prog) result" where
  "prog_step F fs (Done x) = Inr (fs, Done x)"
| "prog_step F fs (Throw e) = Inl e"
| "prog_step F fs (File_Exists p k) = bind_res (file_exists F fs p) (\<lambda>b. Inr (fs, k b))"
| "prog_step F fs (Read_File p k) = bind_res (read_file F fs p []) (\<lambda>r. Inr (fs, k r))"
| "prog_step F fs (Write_File p s k) = bind_res (write_file F fs p s) (\<lambda>fs'. Inr (fs', k))"
| "prog_step F fs (Delete_File p k) = bind_res (delete_file F fs p) (\<lambda>(fs', b). Inr (fs', k b))"
| "prog_step F fs (List_Files p k) = bind_res (list_files F fs p) (\<lambda>ns. Inr (fs, k ns))"

text \<open>The threads of a pool under a schedule; an exception in one of them ends them all.\<close>

fun run_schedule ::
    "'fs filesystem_interface \<Rightarrow> 'fs \<Rightarrow> 'a fs_prog list \<Rightarrow> nat list \<Rightarrow> ('fs \<times> 'a fs_prog list) result" where
  "run_schedule F fs ps [] = Inr (fs, ps)"
| "run_schedule F fs ps (i # sched) =
     (if i < length ps
      then bind_res (prog_step F fs (ps ! i)) (\<lambda>(fs', p'). run_schedule F fs' (ps[i := p']) sched)
      else run_schedule F fs ps sched)"

subsection \<open>The CRUD handler as a program\<close>

function next_id_prog :: "string \<Rightarrow> int \<Rightarrow> int fs_prog" where
  "next_id_prog path ID =
     File_Exists (path @ ''/'' @ to_string ID) (\<lambda>taken.
       if \<not> taken then Done ID
       else if ID < INT_MAX then next_id_prog path (ID + 1) else Throw Undefined_Behaviour)"
  by pat_completeness auto

termination
  by (relation "measure (\<lambda>(path, ID). nat (INT_MAX - ID))") simp_all

declare next_id_prog.simps [simp del]

definition of_result :: "'a result \<Rightarrow> ('a \<Rightarrow> 'b fs_prog) \<Rightarrow> 'b fs_prog" where
  "of_result m f = (case m of Inl e \<Rightarrow> Throw e | Inr x \<Rightarrow> f x)"

definition post_program :: "string \<Rightarrow> bool \<Rightarrow> http_request \<Rightarrow> http_response \<Rightarrow> answer fs_prog" where
  "post_program path_to_entities isID req res =
     (if isID then
        (let res = set_body (''id in request uri of post request'' @ [LF]) res;
             res = set_result 400 res;
             res = set_length res;
             res = set_type ''application/json'' res
         in Done (False, res))
      else
        File_Exists path_to_entities (\<lambda>entity_exists.
        bind_prog (if \<not> entity_exists then Done 1 else next_id_prog path_to_entities 1) (\<lambda>ID.
        let instancePath = (if \<not> entity_exists then path_to_entities @ ''/1''
              else path_to_entities @ ''/'' @ to_string ID);
            body_data = c_string (req_body req)
        in
        of_result (skip_headers body_data) (\<lambda>POST_data.
        Write_File instancePath POST_data
          (let res = set_body (''{'' @ [DQUOTE] @ ''id'' @ [DQUOTE] @ '': '' @ to_string ID @ ''}'' @ [LF]) res;
               res = set_result 201 res;
               res = set_length res;
               res = set_type ''application/json'' res
           in Done (True, res))))))"

definition get_program :: "string \<Rightarrow> http_response \<Rightarrow> answer fs_prog" where
  "get_program path_to_entities res =
     (let endpoint = drop (pos_plus (find_last_of SLASH path_to_entities) 1) path_to_entities in
      if stoi endpoint = None then
        File_Exists path_to_entities (\<lambda>found.
          if found then
            List_Files path_to_entities (\<lambda>allIds.
              let idList = string_vector_to_json allIds;
                  res = set_result 200 res;
                  res = set_type ''application/json'' res;
                  res = set_body (idList @ [LF]) res
              in Done (True, res))
          else
            (let res = set_result 404 res;
                 res = set_type ''application/json'' res;
                 res = set_body (''Directory not found'' @ [LF]) res;
                 res = set_length res
             in Done (False, res)))
      else
        File_Exists path_to_entities (\<lambda>found.
          if found then
            Read_File path_to_entities (\<lambda>(file_content, result).
              if result then
                (let res = set_result 200 res;
                     res = set_type ''application/json'' res;
                     res = set_body file_content res;
                     res = set_length res
                 in Done (True, res))
              else
                (let res = set_result 400 res;
                     res = set_length res;
                     res = set_type ''application/json'' res;
                     res = set_body (''Error reading file'' @ [LF]) res
                 in Done (False, res)))
          else
            (let res = set_result 404 res;
                 res = set_type ''application/json'' res;
                 res = set_body (''File does not exist'' @ [LF]) res;
                 res = set_length res
             in Done (False, res))))"

definition delete_program :: "string \<Rightarrow> bool \<Rightarrow> http_response \<Rightarrow> answer fs_prog" where
  "delete_program path_to_entities isID res =
     (if isID then
        File_Exists path_to_entities (\<lambda>found.
          if found then
            Delete_File path_to_entities (\<lambda>result.
              if result then
                (let res = set_result 200 res;
                     res = set_type ''application/json'' res;
                     res = set_body (''Deleted '' @ path_to_entities @ '' from the server'' @ [LF]) res;
                     res = set_length res
                 in Done (True, res))
              else
                (let res = set_result 400 res;
                     res = set_length res;
                     res = set_type ''application/json'' res;
                     res = set_body (''Error deleting file'' @ [LF]) res
                 in Done (False, res)))
          else
            (let res = set_result 404 res;
                 res = set_length res;
                 res = set_type ''application/json'' res;
                 res = set_body (''File does not exist'' @ [LF]) res
             in Done (False, res)))
      else
        (let res = set_body (''numerical id not in request uri of delete request'' @ [LF]) res;
             res = set_result 400 res;
             res = set_length res;
             res = set_type ''application/json'' res
         in Done (False, res)))"

definition put_program :: "string \<Rightarrow> bool \<Rightarrow> http_request \<Rightarrow> http_response \<Rightarrow> answer fs_prog" where
  "put_program path_to_entities isID req res =
     (if isID then
        let body_data = c_string (req_body req) in
        of_result (skip_headers body_data) (\<lambda>PUT_data.
        File_Exists path_to_entities (\<lambda>found.
          let res = (if found then set_result 200 res else set_result 201 res);
              res = set_type ''application/json'' res;
              res = set_body (''Edited '' @ path_to_entities @ '' on the server'' @ [LF]) res
          in Write_File path_to_entities PUT_data (Done (True, res))))
      else
        (let res = set_body (''numerical id not in request uri of put request'' @ [LF]) res;
             res = set_result 400 res;
             res = set_length res;
             res = set_type ''application/json'' res
         in Done (False, res)))"

definition crud_program :: "string \<Rightarrow> http_request \<Rightarrow> http_response \<Rightarrow> answer fs_prog" where
  "crud_program data_path req res =
     (let target = req_target req in
      case find_char SLASH target of
        None \<Rightarrow>
          (let res = set_body (''Request uri '' @ target @ '' has no slashes'' @ [LF]) res;
               res = set_result 400 res;
               res = set_length res;
               res = set_type ''application/json'' res
           in Done (False, res))
      | Some firstSlashPos \<Rightarrow>
          (case find_char SLASH (drop (firstSlashPos + 1) target) of
             None \<Rightarrow>
               (let res = set_body (''Request uri '' @ target @ '' only has 1 slash, instead of 2'' @ [LF]) res;
                    res = set_result 400 res;
                    res = set_length res;
                    res = set_type ''application/json'' res
                in Done (False, res))
           | Some i \<Rightarrow>
               (let secondSlashPos = firstSlashPos + 1 + i;
                    suffix = drop (secondSlashPos + 1) target;
                    path_to_entities = ''.'' @ data_path @ ''/'' @ suffix;
                    basename = drop (pos_plus (find_last_of SLASH target) 1) target;
                    isID = list_all isdigit basename
                in (case req_method req of
                      verb_post \<Rightarrow> post_program path_to_entities isID req res
                    | verb_get \<Rightarrow> get_program path_to_entities res
                    | verb_delete \<Rightarrow> delete_program path_to_entities isID res
                    | verb_put \<Rightarrow> put_program path_to_entities isID req res
                    | verb_other \<Rightarrow> Done (False, res)))))"

subsection \<open>A program run alone is the handler\<close>

lemma run_bind_prog: "run_prog F (bind_prog p f) fs = bind_res (run_prog F p fs) (\<lambda>(fs', x). run_prog F (f x) fs')"
  by (induction p arbitrary: fs) (simp_all add: bind_res_assoc split_def)

lemma run_of_result: "run_prog F (of_result m f) fs = bind_res m (\<lambda>x. run_prog F (f x) fs)"
  by (cases m) (simp_all add: of_result_def)

lemma run_next_id_prog:
  "INT_MIN \<le> ID \<Longrightarrow> ID \<le> INT_MAX \<Longrightarrow>
   run_prog F (next_id_prog path ID) fs = bind_res (next_id F fs path ID) (\<lambda>n. Inr (fs, n))"
proof (induction path ID rule: next_id_prog.induct)
  case (1 path ID)
  show ?case
  proof (cases "file_exists F fs (path @ ''/'' @ to_string ID)")
    case (Inr taken)
    with 1 show ?thesis
      by (subst next_id_prog.simps, subst next_id.simps) (auto simp: chk_int_def INT_MIN_def INT_MAX_def)
  qed (subst next_id_prog.simps, subst next_id.simps, simp)
qed

lemma run_programs:
  "run_prog F (post_program p b req res) fs = crud_post F p b fs req res"
  "run_prog F (get_program p res) fs = crud_get F p fs res"
  "run_prog F (delete_program p b res) fs = crud_delete F p b fs res"
  "run_prog F (put_program p b req res) fs = crud_put F p b fs req res"
proof -
  have id: "run_prog F (if \<not> b then Done 1 else next_id_prog p 1) fs =
      bind_res (if \<not> b then Inr 1 else next_id F fs p 1) (\<lambda>n. Inr (fs, n))" for b
    by (simp add: run_next_id_prog INT_MIN_def INT_MAX_def)
  show "run_prog F (post_program p b req res) fs = crud_post F p b fs req res"
    by (simp add: post_program_def crud_post_def Let_def run_bind_prog id run_of_result bind_res_assoc)
  show "run_prog F (get_program p res) fs = crud_get F p fs res"
    by (simp add: get_program_def crud_get_def Let_def split_def if_distrib [of "\<lambda>q. run_prog F q fs"] cong: if_cong)
  show "run_prog F (delete_program p b res) fs = crud_delete F p b fs res"
    by (simp add: delete_program_def crud_delete_def Let_def split_def if_distrib [of "\<lambda>q. run_prog F q x" for x] cong: if_cong)
  show "run_prog F (put_program p b req res) fs = crud_put F p b fs req res"
    by (simp add: put_program_def crud_put_def Let_def run_of_result)
qed

lemma run_crud_program: "run_prog F (crud_program data_path req res) fs = crud_handle_request F data_path fs req res"
  by (auto simp: crud_program_def crud_handle_request_def Let_def run_programs split: option.split verb.split)


subsection \<open>Schedules\<close>

lemma run_schedule_append:
  "run_schedule F fs ps (s @ t) = bind_res (run_schedule F fs ps s) (\<lambda>(fs', ps'). run_schedule F fs' ps' t)"
proof (induction s arbitrary: fs ps)
  case (Cons i s)
  then show ?case by (cases "prog_step F fs (ps ! i)") (auto split: prod.split)
qed simp

text \<open>Programs that make at most \<open>n\<close> calls, none of which changes a file.\<close>

inductive reads :: "nat \<Rightarrow> 'a fs_prog \<Rightarrow> bool" where
  "reads n (Done x)"
| "(\<And>b. reads n (k b)) \<Longrightarrow> reads (Suc n) (File_Exists p k)"
| "(\<And>r. reads n (k r)) \<Longrightarrow> reads (Suc n) (Read_File p k)"
| "(\<And>ns. reads n (k ns)) \<Longrightarrow> reads (Suc n) (List_Files p k)"

lemma reads_step:
  assumes "reads n p" and "run_prog F p fs = Inr r"
  shows "\<exists>p'. prog_step F fs p = Inr (fs, p') \<and> reads (n - 1) p' \<and> run_prog F p' fs = Inr r"
  using assms by cases (auto simp: bind_res_eq_Inr intro: reads.intros)

lemma reads_0: "reads 0 p \<Longrightarrow> run_prog F p fs = Inr (fs', x) \<Longrightarrow> p = Done x"
  by (erule reads.cases) auto

lemma get_reads: "reads 2 (get_program p res)"
  by (auto simp: get_program_def Let_def numeral_2_eq_2 split: prod.split intro!: reads.intros)

lemma reads_schedule:
  assumes "\<And>i. i < length ps \<Longrightarrow> reads (n i) (ps ! i) \<and> run_prog F (ps ! i) fs = Inr (r i)"
  shows "\<exists>ps'. run_schedule F fs ps sched = Inr (fs, ps') \<and> length ps' = length ps \<and>
    (\<forall>i < length ps. reads (n i - count_list sched i) (ps' ! i) \<and> run_prog F (ps' ! i) fs = Inr (r i))"
  using assms
proof (induction sched arbitrary: ps n)
  case (Cons i sched)
  show ?case
  proof (cases "i < length ps")
    case True
    from reads_step [of "n i" "ps ! i" F fs "r i"] Cons.prems [OF True] obtain p' where
      p': "prog_step F fs (ps ! i) = Inr (fs, p')" "reads (n i - 1) p'" "run_prog F p' fs = Inr (r i)" by blast
    have "reads ((n(i := n i - 1)) j) (ps[i := p'] ! j) \<and> run_prog F (ps[i := p'] ! j) fs = Inr (r j)"
      if "j < length (ps[i := p'])" for j
      using that Cons.prems [of j] p'(2,3) by (cases "j = i") simp_all
    from Cons.IH [OF this] obtain ps' where
      ps': "run_schedule F fs (ps[i := p']) sched = Inr (fs, ps')" "length ps' = length ps"
        "\<forall>j < length ps. reads ((n(i := n i - 1)) j - count_list sched j) (ps' ! j) \<and> run_prog F (ps' ! j) fs = Inr (r j)"
      by auto
    have "reads (n j - count_list (i # sched) j) (ps' ! j)" if "j < length ps" for j
      using ps'(3) that by (cases "j = i") force+
    with ps' p'(1) True show ?thesis by auto
  next
    case False
    then have "count_list (i # sched) j = count_list sched j" if "j < length ps" for j using that by auto
    with Cons.IH [of ps n] Cons.prems False show ?thesis by auto
  qed
qed simp

text \<open>
  Concurrent reads do not interfere.  Any number of GET requests whose handlers would
  succeed alone succeed under every schedule, leave the files alone, and each thread that has
  had two turns has the answer it would have had alone.
\<close>

lemma concurrent_gets:
  assumes "\<And>req. req \<in> set reqs \<Longrightarrow> req_method req = verb_get \<and> crud_handle_request F data_path fs req res = Inr (r req)"
  shows "\<exists>ps. run_schedule F fs (map (\<lambda>req. crud_program data_path req res) reqs) sched = Inr (fs, ps) \<and>
    (\<forall>i < length reqs. 2 \<le> count_list sched i \<longrightarrow> (\<exists>x. ps ! i = Done x \<and> r (reqs ! i) = (fs, x)))"
proof -
  let ?ps = "map (\<lambda>req. crud_program data_path req res) reqs"
  have "reads 2 (?ps ! i) \<and> run_prog F (?ps ! i) fs = Inr (r (reqs ! i))" if "i < length ?ps" for i
  proof -
    have i: "i < length reqs" using that by simp
    with assms [of "reqs ! i"] have "req_method (reqs ! i) = verb_get" "crud_handle_request F data_path fs (reqs ! i) res = Inr (r (reqs ! i))"
      by simp_all
    moreover from this(1) have "reads 2 (crud_program data_path (reqs ! i) res)"
      by (auto simp: crud_program_def Let_def get_reads split: option.split intro: reads.intros)
    ultimately show ?thesis using i by (simp add: run_crud_program)
  qed
  from reads_schedule [where n = "\<lambda>_. 2" and r = "\<lambda>i. r (reqs ! i)", OF this] obtain ps where
    ps: "run_schedule F fs ?ps sched = Inr (fs, ps)"
      "\<forall>i < length reqs. reads (2 - count_list sched i) (ps ! i) \<and> run_prog F (ps ! i) fs = Inr (r (reqs ! i))" by auto
  have "\<exists>x. ps ! i = Done x \<and> r (reqs ! i) = (fs, x)" if "i < length reqs" "2 \<le> count_list sched i" for i
  proof -
    have *: "reads 0 (ps ! i)" "run_prog F (ps ! i) fs = Inr (r (reqs ! i))" using ps(2) that by (metis diff_is_0_eq)+
    obtain fs' x where x: "r (reqs ! i) = (fs', x)" by (cases "r (reqs ! i)")
    with reads_0 [OF *(1)] *(2) have "ps ! i = Done x" by metis
    with *(2) x show ?thesis by simp
  qed
  with ps(1) show ?thesis by blast
qed

subsection \<open>The stages of a POST\<close>

definition write_prog :: "string \<Rightarrow> string \<Rightarrow> http_response \<Rightarrow> int \<Rightarrow> answer fs_prog" where
  "write_prog p s res ID =
     Write_File (p @ ''/'' @ to_string ID) s
       (Done (True, set_type ''application/json'' (set_length (set_result 201
          (set_body (''{'' @ [DQUOTE] @ ''id'' @ [DQUOTE] @ '': '' @ to_string ID @ ''}'' @ [LF]) res)))))"

definition probe_prog :: "string \<Rightarrow> string \<Rightarrow> http_response \<Rightarrow> int \<Rightarrow> answer fs_prog" where
  "probe_prog p s res ID = bind_prog (next_id_prog p ID) (write_prog p s res)"

definition start_prog :: "string \<Rightarrow> string \<Rightarrow> http_response \<Rightarrow> answer fs_prog" where
  "start_prog p s res = File_Exists p (\<lambda>b. if b then probe_prog p s res 1 else write_prog p s res 1)"

lemma to_string_1: "to_string 1 = ''1''"
  using to_string_of_nat [of 1] show_nat_1 by simp

lemma post_program_stages:
  assumes "skip_headers (c_string (req_body req)) = Inr s"
  shows "post_program p False req res = start_prog p s res"
  using assms
  by (auto simp: post_program_def start_prog_def probe_prog_def write_prog_def of_result_def Let_def fun_eq_iff to_string_1
      intro!: arg_cong [where f = "bind_prog _"])

lemma probe_prog_step:
  "prog_step F fs (probe_prog p s res (int j)) =
     bind_res (file_exists F fs (p @ ''/'' @ show_nat j)) (\<lambda>taken.
       Inr (fs, if \<not> taken then write_prog p s res (int j)
                else if int j < INT_MAX then probe_prog p s res (int (Suc j)) else Throw Undefined_Behaviour))"
  unfolding probe_prog_def by (subst next_id_prog.simps) (auto simp: add.commute intro!: arg_cong [where f = "bind_res _"])

lemma write_prog_step:
  "prog_step F fs (write_prog p s res (int n)) =
     bind_res (write_file F fs (p @ ''/'' @ show_nat n) s) (\<lambda>fs'.
       Inr (fs', Done (True, json_response 201 (id_body n) (Some (length (id_body n))))))"
  by (cases res) (simp add: write_prog_def response_simps json_response_def id_body_def)

text \<open>
  The stages of a POST that will take the number \<open>n\<close>, with the turns it still needs at most.
\<close>

inductive poster :: "string \<Rightarrow> string \<Rightarrow> http_response \<Rightarrow> nat \<Rightarrow> nat \<Rightarrow> answer fs_prog \<Rightarrow> bool" for p s res n where
  starts: "poster p s res n (n + 2) (start_prog p s res)"
| probes: "1 \<le> j \<Longrightarrow> j \<le> n \<Longrightarrow> poster p s res n (n - j + 2) (probe_prog p s res (int j))"
| writes: "poster p s res n 1 (write_prog p s res (int n))"
| posted: "poster p s res n 0 (Done (True, json_response 201 (id_body n) (Some (length (id_body n)))))"

inductive_cases poster_0E: "poster p s res n 0 q"
inductive_cases poster_1E: "poster p s res n (Suc 0) q"

lemma poster_0: "poster p s res n 0 q \<longleftrightarrow> q = Done (True, json_response 201 (id_body n) (Some (length (id_body n))))"
  by (auto elim: poster_0E intro: poster.posted)

lemma poster_1: "poster p s res n (Suc 0) q \<Longrightarrow> q = write_prog p s res (int n)"
  by (auto elim: poster_1E)

context filesystem_contract
begin

lemma poster_reads:
  assumes q: "poster (plain_path ns) s res n (Suc (Suc k)) q" and e: "entity_path fs ns"
    and free: "first_free (collection fs ns) n" and n: "int n \<le> INT_MAX"
  shows "\<exists>q' k'. prog_step F fs q = Inr (fs, q') \<and> 1 \<le> k' \<and> k' \<le> Suc k \<and> poster (plain_path ns) s res n k' q'"
  using q
proof cases
  case starts
  show ?thesis
  proof (cases "dir fs ns")
    case True
    with starts entity_exists(1) [OF e] show ?thesis
      using poster.probes [of 1 n "plain_path ns" s res] free by (auto simp: start_prog_def first_free_def)
  next
    case False
    then have "collection fs ns i = None" for i using collection_dir [OF e] by blast
    then have "n = 1" using free by (intro first_free_unique) (auto simp: first_free_def)
    with False starts entity_exists(1) [OF e] show ?thesis
      using poster.writes [of "plain_path ns" s res n] by (auto simp: start_prog_def)
  qed
next
  case (probes j)
  show ?thesis
  proof (cases "j = n")
    case True
    have "collection fs ns n = None" using free by (simp add: first_free_def)
    with True probes entity_exists(2) [OF e, of j] show ?thesis
      using poster.writes [of "plain_path ns" s res n] by (auto simp: probe_prog_step)
  next
    case False
    with probes have j: "1 \<le> j" "j < n" by simp_all
    with free have "collection fs ns j \<noteq> None" by (simp add: first_free_def)
    then have "prog_step F fs q = Inr (fs, probe_prog (plain_path ns) s res (int (Suc j)))"
      using probes entity_exists(2) [OF e, of j] j n by (auto simp: probe_prog_step)
    moreover have "poster (plain_path ns) s res n (n - Suc j + 2) (probe_prog (plain_path ns) s res (int (Suc j)))"
      using j by (intro poster.probes) simp_all
    ultimately show ?thesis using probes j by (intro exI [of _ "probe_prog (plain_path ns) s res (int (Suc j))"] exI [of _ "n - Suc j + 2"]) auto
  qed
qed simp_all

lemma poster_writes:
  assumes "entity_path fs ns"
  shows "\<exists>fs' q'. prog_step F fs (write_prog (plain_path ns) s res (int n)) = Inr (fs', q') \<and>
    poster (plain_path ns) s res n 0 q' \<and> entity_path fs' ns \<and> collection fs' ns = (collection fs ns)(n \<mapsto> s)"
  using write_instance [OF assms, of n s] by (auto simp: write_prog_step poster_0)

lemma poster_until_write:
  assumes "poster (plain_path ns) s res n (Suc k) (ps ! i)" and "i < length ps" and "entity_path fs ns"
    and "first_free (collection fs ns) n" and "int n \<le> INT_MAX"
  shows "\<exists>t. run_schedule F fs ps (replicate t i) = Inr (fs, ps[i := write_prog (plain_path ns) s res (int n)])"
  using assms
proof (induction k arbitrary: ps rule: less_induct)
  case (less k)
  show ?case
  proof (cases k)
    case 0
    then have "ps ! i = write_prog (plain_path ns) s res (int n)" using less.prems(1) by (intro poster_1) simp
    then have "ps = ps[i := write_prog (plain_path ns) s res (int n)]" by (metis list_update_id)
    then show ?thesis by (intro exI [of _ 0]) simp
  next
    case (Suc m)
    with poster_reads [of ns s res n m "ps ! i" fs] less.prems obtain q' k' where
      q': "prog_step F fs (ps ! i) = Inr (fs, q')" "1 \<le> k'" "k' \<le> Suc m" "poster (plain_path ns) s res n k' q'" by auto
    have "k' - 1 < k" using q'(2,3) Suc by simp
    moreover have "poster (plain_path ns) s res n (Suc (k' - 1)) (ps[i := q'] ! i)" using q'(2,4) less.prems(2) by simp
    ultimately obtain t where "run_schedule F fs (ps[i := q']) (replicate t i) =
        Inr (fs, (ps[i := q'])[i := write_prog (plain_path ns) s res (int n)])"
      using less.IH [of "k' - 1" "ps[i := q']"] less.prems(2-5) by auto
    then have "run_schedule F fs ps (replicate (Suc t) i) = Inr (fs, ps[i := write_prog (plain_path ns) s res (int n)])"
      using q'(1) less.prems(2) by simp
    then show ?thesis ..
  qed
qed

lemma posts_collide:
  assumes e: "entity_path fs ns" and free: "first_free (collection fs ns) n" "int n \<le> INT_MAX"
  shows "\<exists>sched fs'. run_schedule F fs [start_prog (plain_path ns) s1 res, start_prog (plain_path ns) s2 res] sched =
      Inr (fs', replicate 2 (Done (True, json_response 201 (id_body n) (Some (length (id_body n)))))) \<and>
    collection fs' ns = (collection fs ns)(n \<mapsto> s2)"
proof -
  let ?p = "plain_path ns" and ?ps = "[start_prog (plain_path ns) s1 res, start_prog (plain_path ns) s2 res]"
  let ?w1 = "write_prog (plain_path ns) s1 res (int n)" and ?w2 = "write_prog (plain_path ns) s2 res (int n)"
  have st: "poster ?p s res n (Suc (n + 1)) (start_prog ?p s res)" for s
    using poster.starts [of ?p s res n] by simp
  obtain t1 where t1: "run_schedule F fs ?ps (replicate t1 0) = Inr (fs, [?w1, start_prog ?p s2 res])"
    using poster_until_write [OF _ _ e free, of s1 res "n + 1" ?ps 0] st [of s1] by auto
  obtain t2 where t2: "run_schedule F fs [?w1, start_prog ?p s2 res] (replicate t2 1) = Inr (fs, [?w1, ?w2])"
    using poster_until_write [OF _ _ e free, of s2 res "n + 1" "[?w1, start_prog ?p s2 res]" 1] st [of s2] by auto
  obtain fs1 q1 where w1: "prog_step F fs ?w1 = Inr (fs1, q1)" "poster ?p s1 res n 0 q1" "entity_path fs1 ns"
    "collection fs1 ns = (collection fs ns)(n \<mapsto> s1)"
    using poster_writes [OF e, of s1 res n] by blast
  obtain fs2 q2 where w2: "prog_step F fs1 ?w2 = Inr (fs2, q2)" "poster ?p s2 res n 0 q2"
    "collection fs2 ns = (collection fs1 ns)(n \<mapsto> s2)"
    using poster_writes [OF w1(3), of s2 res n] by blast
  have "run_schedule F fs [?w1, ?w2] [0, 1] = Inr (fs2, [q1, q2])" using w1(1) w2(1) by simp
  then have "run_schedule F fs ?ps (replicate t1 0 @ replicate t2 1 @ [0, 1]) = Inr (fs2, [q1, q2])"
    using t1 t2 by (simp only: run_schedule_append bind_res_simps prod.case)
  moreover have "[q1, q2] = replicate 2 (Done (True, json_response 201 (id_body n) (Some (length (id_body n)))))"
    using w1(2) w2(2) by (simp add: poster_0 numeral_2_eq_2)
  ultimately show ?thesis using w1(4) w2(3) by (intro exI [of _ "replicate t1 0 @ replicate t2 1 @ [0, 1]"] exI [of _ fs2]) simp
qed

end

lemma crud_program_post:
  assumes "plain_name e" and "\<not> list_all isdigit e" and "SLASH \<notin> set a" and "carried h (Create s)"
  shows "crud_program (slashed ds) (request_of a e h (Create s)) res = start_prog (plain_path (ds @ [e])) s res"
proof -
  let ?t = "SLASH # a @ SLASH # e"
  have e: "SLASH \<notin> set e" using assms(1) by (simp add: plain_name_def)
  have second: "find_char SLASH (a @ SLASH # e) = Some (length a)" using assms(3) by (simp add: find_char_append)
  have base: "drop (pos_plus (find_last_of SLASH ?t) 1) ?t = e"
    using last_component_append [of "SLASH # a" e] last_component_no_slash [OF e] by (simp add: last_component_def)
  have path: "''.'' @ slashed ds @ ''/'' @ e = plain_path (ds @ [e])" by (rule plain_path_slashed(1))
  have "skip_headers (c_string (req_body (request_of a e h (Create s)))) = Inr s" using assms(4) by simp
  then have "post_program (plain_path (ds @ [e])) False (request_of a e h (Create s)) res =
      start_prog (plain_path (ds @ [e])) s res" by (rule post_program_stages)
  then show ?thesis
    using second base assms(2) path by (simp add: crud_program_def Let_def)
qed

subsection \<open>Two clients of one collection\<close>

text \<open>
  C18: Two creations can get the same number.  The handler looks for a free number and writes it
  in separate calls, so two POSTs to one collection on two threads have a schedule that answers
  both with 201 and the same number, and of the two bodies only the second is stored.
\<close>

theorem posts_race:
  assumes "rf.entity_path fs (ds @ [e])" and "\<not> list_all isdigit e" and "SLASH \<notin> set a"
    and "first_free (rf.collection fs (ds @ [e])) n" and "int n \<le> INT_MAX"
    and "carried h (Create s1)" and "carried h (Create s2)"
  shows "\<exists>sched fs'. run_schedule real_filesystem fs
      [crud_program (slashed ds) (request_of a e h (Create s1)) res, crud_program (slashed ds) (request_of a e h (Create s2)) res] sched =
      Inr (fs', replicate 2 (Done (True, json_response 201 (id_body n) (Some (length (id_body n)))))) \<and>
    rf.collection fs' (ds @ [e]) = (rf.collection fs (ds @ [e]))(n \<mapsto> s2)"
proof -
  have "plain_name e" using assms(1) by (simp add: rf.entity_path_def)
  from crud_program_post [OF this assms(2,3)] assms(6,7) rf.posts_collide [OF assms(1,4,5)] show ?thesis by simp
qed

theorem posts_race_witness:
  "\<exists>sched fs'. run_schedule real_filesystem sample_fs
      [crud_program ''/data'' (request_of ''api'' ''Shoes'' ''x'' (Create ''{a}'')) empty_response,
       crud_program ''/data'' (request_of ''api'' ''Shoes'' ''x'' (Create ''{b}'')) empty_response] sched =
      Inr (fs', replicate 2 (Done (True, json_response 201 (id_body 2) (Some (length (id_body 2)))))) \<and>
    rf.collection fs' [''data'', ''Shoes''] = [1 \<mapsto> ''{}'', 2 \<mapsto> ''{b}'']"
proof -
  have b: "carried ''x'' (Create ''{b}'')" by code_simp
  have free: "first_free (rf.collection sample_fs ([''data''] @ [''Shoes''])) 2" "int 2 \<le> INT_MAX"
    by (simp_all add: sample_collection first_free_def INT_MAX_def)
  from posts_race [OF sample_entity_path sample_facts(1,2) free sample_facts(3) b]
  show ?thesis unfolding sample_facts(5) append_Cons append_Nil sample_collection .
qed

lemma hats_free:
  "rf.entity_path sample_fs ([''data''] @ [''Hats''])" "rf.collection sample_fs ([''data''] @ [''Hats'']) = (\<lambda>_. None)"
proof -
  have "real_content sample_fs (take i [''data'', ''Hats'']) = None" if "i \<le> 2" for i
    using that by (cases i; cases "i - 1") (simp_all add: sample_fs_def real_content_def file_at_def)
  moreover have "\<not> real_dir sample_fs ([''data'', ''Hats''] @ [show_nat n])" for n
    by (simp add: sample_fs_def real_dir_def is_dir_def)
  moreover have "real_ok sample_fs" "list_all plain_name [''data'', ''Hats'']" by code_simp+
  ultimately show "rf.entity_path sample_fs ([''data''] @ [''Hats''])" by (simp add: rf.entity_path_def)
  show "rf.collection sample_fs ([''data''] @ [''Hats'']) = (\<lambda>_. None)"
    by (simp add: rf.collection_def real_content_def sample_fs_def file_at_def)
qed

end
