(* ===== verification/Disjoint_Requests.thy ===== *)
theory Disjoint_Requests
  imports Concurrency
begin

section \<open>Threads on different collections\<close>

text \<open>
  Any number of CRUD handlers of any verb on the threads of the pool, each for a collection of its
  own, interleaved call by call.  A handler only asks for and changes what belongs to its
  collection, so that it runs as if it were alone.
\<close>

subsection \<open>Programs that stay in their collection\<close>

text \<open>
  \<open>does ns m d q m' x k\<close>: from the collection \<open>m\<close> at \<open>ns\<close>, whose directory exists as \<open>d\<close> says, the
  program \<open>q\<close> makes at most \<open>k\<close> calls, all of them in the collection, and ends with \<open>x\<close> and the
  collection \<open>m'\<close>.
\<close>

definition inst_path :: "string list \<Rightarrow> nat \<Rightarrow> string" where
  "inst_path ns i = plain_path ns @ ''/'' @ show_nat i"

inductive does :: "string list \<Rightarrow> store \<Rightarrow> bool \<Rightarrow> 'a fs_prog \<Rightarrow> store \<Rightarrow> 'a \<Rightarrow> nat \<Rightarrow> bool" for ns where
  does_done: "does ns m d (Done x) m x k"
| does_entity: "does ns m d (q d) m' x k \<Longrightarrow> does ns m d (File_Exists (plain_path ns) q) m' x (Suc k)"
| does_exists: "does ns m d (q (m i \<noteq> None)) m' x k \<Longrightarrow>
    does ns m d (File_Exists (inst_path ns i) q) m' x (Suc k)"
| does_read: "m i = Some s \<Longrightarrow> does ns m d (q (s, True)) m' x k \<Longrightarrow>
    does ns m d (Read_File (inst_path ns i) q) m' x (Suc k)"
| does_write: "does ns (m(i \<mapsto> s)) True q m' x k \<Longrightarrow>
    does ns m d (Write_File (inst_path ns i) s q) m' x (Suc k)"
| does_delete: "m i \<noteq> None \<Longrightarrow> does ns (m(i := None)) d (q True) m' x k \<Longrightarrow>
    does ns m d (Delete_File (inst_path ns i) q) m' x (Suc k)"

inductive_cases does_0E: "does ns m d q m' x 0"

lemma does_0: "does ns m d q m' x 0 \<Longrightarrow> q = Done x \<and> m' = m"
  by (auto elim: does_0E)

lemma does_more: "does ns m d q m' x k \<Longrightarrow> k \<le> k' \<Longrightarrow> does ns m d q m' x k'"
proof (induction arbitrary: k' rule: does.induct)
  case (does_done m d x k)
  show ?case by (rule does.does_done)
next
  case (does_entity m d q m' x k)
  then show ?case by (cases k') (auto intro: does.does_entity)
next
  case (does_exists m d q i m' x k)
  then show ?case by (cases k') (auto intro: does.does_exists)
next
  case (does_read m i s d q m' x k)
  then show ?case by (cases k') (auto intro: does.does_read)
next
  case (does_write m i s q m' x k d)
  obtain k2 where "k' = Suc k2" "k \<le> k2" using does_write.prems by (cases k') auto
  with does.does_write [OF does_write.IH [of k2]] show ?case by simp
next
  case (does_delete m i d q m' x k)
  obtain k2 where k2: "k' = Suc k2" "k \<le> k2" using does_delete.prems by (cases k') auto
  show ?case unfolding k2(1)
    by (intro does.does_delete does_delete.hyps(1) does_delete.IH k2(2))
qed

subsection \<open>Writes in two steps\<close>

text \<open>
  \<open>real_filesystem::write_file\<close> opens an \<open>ofstream\<close>, which creates or truncates the file, and the
  contents reach the file when the stream is closed: two steps, between which a handler on another
  thread can come.  The second step writes the whole file again, which is what the stream does as
  long as no other thread writes or removes the same file.
\<close>

primrec opened :: "'a fs_prog \<Rightarrow> 'a fs_prog" where
  "opened (Done x) = Done x"
| "opened (Throw e) = Throw e"
| "opened (File_Exists p k) = File_Exists p (\<lambda>b. opened (k b))"
| "opened (Read_File p k) = Read_File p (\<lambda>r. opened (k r))"
| "opened (Write_File p s k) = Write_File p [] (Write_File p s (opened k))"
| "opened (Delete_File p k) = Delete_File p (\<lambda>b. opened (k b))"
| "opened (List_Files p k) = List_Files p (\<lambda>ns. opened (k ns))"

text \<open>As long as a collection belongs to one thread the two steps are the one.\<close>

lemma does_opened: "does ns m d q m' x k \<Longrightarrow> does ns m d (opened q) m' x (2 * k)"
proof (induction rule: does.induct)
  case (does_write m i s q m' x k d)
  have "does ns m d (Write_File (inst_path ns i) [] (Write_File (inst_path ns i) s (opened q))) m' x (Suc (Suc (2 * k)))"
    by (intro does.does_write) (simp add: does_write.IH)
  then show ?case by simp
next
  case (does_exists m d q i m' x k)
  have "does ns m d (File_Exists (inst_path ns i) (\<lambda>b. opened (q b))) m' x (Suc (2 * k))"
    by (rule does.does_exists) (rule does_exists.IH)
  then show ?case by (auto intro: does_more)
next
  case (does_delete m i d q m' x k)
  have "does ns m d (Delete_File (inst_path ns i) (\<lambda>b. opened (q b))) m' x (Suc (2 * k))"
    by (rule does.does_delete) (rule does_delete.hyps(1), rule does_delete.IH)
  then show ?case by (auto intro: does_more)
qed (auto intro: does.does_done does.does_entity does.does_read does_more)

subsection \<open>Steps of the threads\<close>

context filesystem_contract
begin

definition at_collection :: "'fs \<Rightarrow> string list \<Rightarrow> store \<Rightarrow> bool \<Rightarrow> bool" where
  "at_collection fs ns m d \<longleftrightarrow> entity_path fs ns \<and> collection fs ns = m \<and> dir fs ns = d"

text \<open>Every other collection of the same depth is left as it was.\<close>

definition apart :: "'fs \<Rightarrow> 'fs \<Rightarrow> string list \<Rightarrow> bool" where
  "apart fs fs' ns \<longleftrightarrow> (\<forall>ns' m d. length ns' = length ns \<and> ns' \<noteq> ns \<longrightarrow> at_collection fs ns' m d \<longrightarrow> at_collection fs' ns' m d)"

lemma apart_refl [simp]: "apart fs fs ns"
  by (simp add: apart_def)

lemma write_apart:
  assumes "entity_path fs ns"
  shows "\<exists>fs'. write_file F fs (plain_path ns @ ''/'' @ show_nat i) s = Inr fs' \<and>
    at_collection fs' ns ((collection fs ns)(i \<mapsto> s)) True \<and> apart fs fs' ns"
proof -
  let ?p = "ns @ [show_nat i]"
  have w: "writable fs ?p" using assms by (rule entity_instance_writable)
  obtain fs' where fs': "write_file F fs (plain_path ?p) s = Inr fs'" "ok fs'" "content fs' = (content fs)(?p \<mapsto> s)"
    "\<forall>q. dir fs' q \<longleftrightarrow> dir fs q \<or> strict_prefix q ?p"
    using write_law [of fs ?p s] w assms by (auto simp: entity_path_def writable_def)
  have other: "at_collection fs' ns' m d" if "length ns' = length ns" "ns' \<noteq> ns" "at_collection fs ns' m d" for ns' m d
  proof -
    have "take j ns' \<noteq> ?p" for j
    proof
      assume "take j ns' = ?p"
      then have "length (take j ns') = length ?p" by simp
      with that(1) show False by simp
    qed
    moreover have "\<not> strict_prefix (ns' @ [show_nat n]) ?p" for n
    proof
      assume "strict_prefix (ns' @ [show_nat n]) ?p"
      then have "length (ns' @ [show_nat n]) < length ?p" by (rule prefix_length_less)
      with that(1) show False by simp
    qed
    moreover have "\<not> strict_prefix ns' ?p"
    proof
      assume "strict_prefix ns' ?p"
      then have "prefix ns' ns" using that(1) by (auto simp: strict_prefix_def prefix_snoc)
      then obtain zs where "ns = ns' @ zs" by (elim prefixE)
      with that(1,2) show False by simp
    qed
    moreover have "collection fs' ns' = collection fs ns'" using that(2) by (auto simp: collection_def fs'(3) fun_eq_iff)
    ultimately show ?thesis using that(3) fs' by (auto simp: at_collection_def entity_path_def)
  qed
  have "dir fs' ns" using fs'(4) by (auto simp: strict_prefix_def)
  with write_instance [OF assms, of i s] fs'(1) other show ?thesis
    by (intro exI [of _ fs']) (auto simp: at_collection_def apart_def plain_path_snoc)
qed

lemma delete_apart:
  assumes "entity_path fs ns" and "collection fs ns i \<noteq> None"
  shows "\<exists>fs'. delete_file F fs (plain_path ns @ ''/'' @ show_nat i) = Inr (fs', True) \<and>
    at_collection fs' ns ((collection fs ns)(i := None)) (dir fs ns) \<and> apart fs fs' ns"
proof -
  have "ok fs" "list_all plain_name (ns @ [show_nat i])" "content fs (ns @ [show_nat i]) \<noteq> None"
    using assms by (simp_all add: entity_path_def collection_def)
  from delete_law [OF this] obtain fs' where fs': "delete_file F fs (plain_path (ns @ [show_nat i])) = Inr (fs', True)" "ok fs'"
    "content fs' = (content fs)(ns @ [show_nat i] := None)" "dir fs' = dir fs" by blast
  have "at_collection fs' ns ((collection fs ns)(i := None)) (dir fs ns)"
    using assms(1) fs' by (auto simp: at_collection_def entity_path_def collection_def fun_eq_iff)
  moreover have "apart fs fs' ns"
    using fs' by (auto simp: apart_def at_collection_def entity_path_def collection_def fun_eq_iff)
  ultimately show ?thesis using fs'(1) by (simp add: plain_path_snoc)
qed

text \<open>One call of such a program, whatever the other collections hold.\<close>

lemma does_step:
  assumes "does ns m d q m' x k" and "at_collection fs ns m d"
  shows "\<exists>fs' q' m1 d1. prog_step F fs q = Inr (fs', q') \<and> at_collection fs' ns m1 d1 \<and> does ns m1 d1 q' m' x (k - 1) \<and> apart fs fs' ns"
proof -
  have e: "entity_path fs ns" and m: "collection fs ns = m" and d: "dir fs ns = d" using assms(2) by (simp_all add: at_collection_def)
  from assms(1) show ?thesis
  proof cases
    case does_done
    then show ?thesis using assms(2) by (auto intro: does.does_done)
  next
    case (does_entity q' k')
    then have "prog_step F fs q = Inr (fs, q' d)" using entity_exists(1) [OF e] d by simp
    with does_entity assms(2) show ?thesis by force
  next
    case (does_exists q' i k')
    then have "prog_step F fs q = Inr (fs, q' (m i \<noteq> None))" using entity_exists(2) [OF e, of i] m by (simp add: inst_path_def)
    with does_exists assms(2) show ?thesis by force
  next
    case (does_read i s q' k')
    have "ok fs" "list_all plain_name (ns @ [show_nat i])" "content fs (ns @ [show_nat i]) = Some s"
      using e m does_read by (auto simp: entity_path_def collection_def)
    then have "prog_step F fs q = Inr (fs, q' (s, True))"
      using read_law [of fs "ns @ [show_nat i]" s "[]"] does_read by (simp add: plain_path_snoc inst_path_def)
    with does_read assms(2) show ?thesis by force
  next
    case (does_write i s q' k')
    from write_apart [OF e, of i s] obtain fs' where
      "write_file F fs (inst_path ns i) s = Inr fs'" "at_collection fs' ns (m(i \<mapsto> s)) True" "apart fs fs' ns"
      using m by (auto simp: inst_path_def)
    with does_write show ?thesis by force
  next
    case (does_delete i q' k')
    from delete_apart [OF e, of i] does_delete m d obtain fs' where
      "delete_file F fs (inst_path ns i) = Inr (fs', True)" "at_collection fs' ns (m(i := None)) d" "apart fs fs' ns"
      by (auto simp: inst_path_def)
    with does_delete show ?thesis by force
  qed
qed

text \<open>Threads on collections of the same depth, with the calls each has left at most.\<close>

definition workers :: "string list list \<Rightarrow> (nat \<Rightarrow> store) \<Rightarrow> (nat \<Rightarrow> 'a) \<Rightarrow> (nat \<Rightarrow> nat) \<Rightarrow> 'fs \<Rightarrow> 'a fs_prog list \<Rightarrow> bool" where
  "workers nss ms xs left fs ps \<longleftrightarrow> length ps = length nss \<and>
     (\<forall>i < length nss. \<exists>m d. at_collection fs (nss ! i) m d \<and> does (nss ! i) m d (ps ! i) (ms i) (xs i) (left i))"

lemma workers_step:
  assumes I: "workers nss ms xs left fs ps" and "distinct nss" and "\<And>ns. ns \<in> set nss \<Longrightarrow> length ns = n" and i: "i < length nss"
  shows "\<exists>fs' q. prog_step F fs (ps ! i) = Inr (fs', q) \<and> workers nss ms xs (left(i := left i - 1)) fs' (ps[i := q])"
proof -
  from I i obtain m d where "does (nss ! i) m d (ps ! i) (ms i) (xs i) (left i)" "at_collection fs (nss ! i) m d"
    and l: "length ps = length nss" by (auto simp: workers_def)
  from does_step [OF this(1,2)] obtain fs' q m1 d1 where q: "prog_step F fs (ps ! i) = Inr (fs', q)"
    "at_collection fs' (nss ! i) m1 d1" "does (nss ! i) m1 d1 q (ms i) (xs i) (left i - 1)" "apart fs fs' (nss ! i)" by blast
  have "\<exists>m d. at_collection fs' (nss ! j) m d \<and> does (nss ! j) m d (ps[i := q] ! j) (ms j) (xs j) ((left(i := left i - 1)) j)"
    if j: "j < length nss" for j
  proof (cases "j = i")
    case True
    with q(2,3) l i show ?thesis by auto
  next
    case False
    then have "nss ! j \<noteq> nss ! i" "length (nss ! j) = length (nss ! i)"
      using assms(2,3) i j by (simp_all add: nth_eq_iff_index_eq)
    moreover obtain m d where "at_collection fs (nss ! j) m d" "does (nss ! j) m d (ps ! j) (ms j) (xs j) (left j)"
      using I j by (auto simp: workers_def)
    ultimately have "at_collection fs' (nss ! j) m d" using q(4) by (simp add: apart_def)
    then show ?thesis using \<open>does (nss ! j) m d (ps ! j) _ _ _\<close> False by auto
  qed
  with l q(1) show ?thesis by (auto simp: workers_def)
qed

lemma workers_schedule:
  assumes "workers nss ms xs left fs ps" and "distinct nss" and "\<And>ns. ns \<in> set nss \<Longrightarrow> length ns = n"
  shows "\<exists>fs' ps'. run_schedule F fs ps sched = Inr (fs', ps') \<and> workers nss ms xs (\<lambda>i. left i - count_list sched i) fs' ps'"
  using assms(1)
proof (induction sched arbitrary: fs ps left)
  case (Cons i sched)
  show ?case
  proof (cases "i < length nss")
    case True
    from workers_step [OF Cons.prems assms(2,3) True] obtain fs' q where
      q: "prog_step F fs (ps ! i) = Inr (fs', q)" "workers nss ms xs (left(i := left i - 1)) fs' (ps[i := q])" by blast
    have "(\<lambda>j. (left(i := left i - 1)) j - count_list sched j) = (\<lambda>j. left j - count_list (i # sched) j)"
      by (auto simp: fun_eq_iff)
    moreover have "length ps = length nss" using Cons.prems by (simp add: workers_def)
    ultimately show ?thesis using Cons.IH [OF q(2)] q(1) True by simp
  next
    case False
    have "workers nss ms xs (\<lambda>j. left j - count_list (i # sched) j) fs' ps'"
      if "workers nss ms xs (\<lambda>j. left j - count_list sched j) fs' ps'" for fs' ps'
    proof -
      have "left j - count_list (i # sched) j = left j - count_list sched j" if "j < length nss" for j using that False by auto
      with that show ?thesis by (simp add: workers_def)
    qed
    moreover have "length ps = length nss" using Cons.prems by (simp add: workers_def)
    ultimately show ?thesis using Cons.IH [OF Cons.prems] False by auto
  qed
qed simp

text \<open>Under every schedule each thread that has had its turns ends as it would have ended alone.\<close>

lemma workers_run:
  assumes "distinct nss" and "\<And>ns. ns \<in> set nss \<Longrightarrow> length ns = n" and "length ps = length nss"
    and "\<And>i. i < length nss \<Longrightarrow> entity_path fs (nss ! i) \<and>
      does (nss ! i) (collection fs (nss ! i)) (dir fs (nss ! i)) (ps ! i) (ms i) (xs i) (t i)"
  shows "\<exists>fs' ps'. run_schedule F fs ps sched = Inr (fs', ps') \<and>
    (\<forall>i < length nss. t i \<le> count_list sched i \<longrightarrow> ps' ! i = Done (xs i) \<and> collection fs' (nss ! i) = ms i)"
proof -
  have "workers nss ms xs t fs ps"
    using assms(3,4) by (auto simp: workers_def at_collection_def)
  then obtain fs' ps' where run: "run_schedule F fs ps sched = Inr (fs', ps')"
    and I: "workers nss ms xs (\<lambda>i. t i - count_list sched i) fs' ps'"
    using workers_schedule [OF _ assms(1,2)] by blast
  have "ps' ! i = Done (xs i) \<and> collection fs' (nss ! i) = ms i" if "i < length nss" "t i \<le> count_list sched i" for i
  proof -
    from I that have "does (nss ! i) (collection fs' (nss ! i)) (dir fs' (nss ! i)) (ps' ! i) (ms i) (xs i) 0"
      by (auto simp: workers_def at_collection_def)
    from does_0 [OF this] show ?thesis by simp
  qed
  with run show ?thesis by blast
qed

end

subsection \<open>The requests\<close>

lemma crud_program_dispatch:
  assumes "req_target req = SLASH # a @ SLASH # sfx" and "SLASH \<notin> set a"
  shows "crud_program data_path req res =
    (let p = ''.'' @ data_path @ ''/'' @ sfx; isID = list_all isdigit (last_component sfx) in
     case req_method req of
       verb_post \<Rightarrow> post_program p isID req res
     | verb_get \<Rightarrow> get_program p res
     | verb_delete \<Rightarrow> delete_program p isID res
     | verb_put \<Rightarrow> put_program p isID req res
     | verb_other \<Rightarrow> Done (False, res))"
proof -
  have "find_char SLASH (a @ SLASH # sfx) = Some (length a)"
    using assms(2) by (simp add: find_char_append)
  moreover have "drop (pos_plus (find_last_of SLASH (req_target req)) 1) (req_target req) = last_component sfx"
    using last_component_append [of "SLASH # a" sfx] by (simp add: assms(1) last_component_def)
  ultimately show ?thesis
    by (simp add: crud_program_def Let_def assms(1) split: verb.split)
qed

lemma probe_prog_unfold:
  "probe_prog p s res (int j) = File_Exists (p @ ''/'' @ show_nat j) (\<lambda>taken.
     if \<not> taken then write_prog p s res (int j)
     else if int j < INT_MAX then probe_prog p s res (int (Suc j)) else Throw Undefined_Behaviour)"
  unfolding probe_prog_def by (subst next_id_prog.simps) (auto simp: fun_eq_iff add.commute intro!: arg_cong [where f = "bind_prog _"])

definition posted_answer :: "nat \<Rightarrow> answer" where
  "posted_answer n = (True, json_response 201 (id_body n) (Some (length (id_body n))))"

lemma write_prog_does:
  "does ns m d (write_prog (plain_path ns) s res (int n)) (m(n \<mapsto> s)) (posted_answer n) 1"
proof -
  have "write_prog (plain_path ns) s res (int n) = Write_File (inst_path ns n) s (Done (posted_answer n))"
    by (cases res) (simp add: write_prog_def inst_path_def posted_answer_def response_simps json_response_def id_body_def)
  then show ?thesis using does_write [OF does_done [of ns "m(n \<mapsto> s)" True "posted_answer n" 0]] by simp
qed

lemma probe_prog_does:
  assumes "first_free m n" and "int n \<le> INT_MAX"
  shows "1 \<le> j \<Longrightarrow> j \<le> n \<Longrightarrow>
    does ns m d (probe_prog (plain_path ns) s res (int j)) (m(n \<mapsto> s)) (posted_answer n) (n - j + 2)"
proof (induction "n - j" arbitrary: j)
  case 0
  then have j: "j = n" by simp
  have "m n = None" using assms(1) by (simp add: first_free_def)
  then have "does ns m d (probe_prog (plain_path ns) s res (int n)) (m(n \<mapsto> s)) (posted_answer n) (Suc 1)"
    unfolding probe_prog_unfold [of _ _ _ n] inst_path_def [symmetric]
    by (intro does_exists) (use write_prog_does in simp)
  then show ?case unfolding j by (rule does_more) simp
next
  case (Suc k)
  then have j: "j < n" by simp
  have "m j \<noteq> None" using assms(1) Suc.prems(1) j by (simp add: first_free_def)
  moreover have "int j < INT_MAX" using assms(2) j by simp
  moreover have "does ns m d (probe_prog (plain_path ns) s res (int (Suc j))) (m(n \<mapsto> s)) (posted_answer n) (n - Suc j + 2)"
    using Suc j by (intro Suc.hyps(1)) simp_all
  ultimately have "does ns m d (probe_prog (plain_path ns) s res (int j)) (m(n \<mapsto> s)) (posted_answer n) (Suc (n - Suc j + 2))"
    unfolding probe_prog_unfold [of _ _ _ j] inst_path_def [symmetric] by (intro does_exists) simp
  then show ?case using j by (simp add: Suc_diff_Suc)
qed

lemma post_does:
  assumes "first_free m n" and "int n \<le> INT_MAX" and "\<not> d \<Longrightarrow> m = Map.empty"
    and "skip_headers (c_string (req_body req)) = Inr s"
  shows "does ns m d (post_program (plain_path ns) False req res) (m(n \<mapsto> s)) (posted_answer n) (n + 2)"
proof -
  have n: "1 \<le> n" using assms(1) by (simp add: first_free_def)
  have "does ns m d (if d then probe_prog (plain_path ns) s res 1 else write_prog (plain_path ns) s res 1)
      (m(n \<mapsto> s)) (posted_answer n) (n + 1)"
  proof (cases d)
    case True
    then show ?thesis using probe_prog_does [OF assms(1,2), of 1 ns d s res] n by simp
  next
    case False
    then have "n = 1" using assms(1,3) by (intro first_free_unique [of m]) (auto simp: first_free_def)
    with False write_prog_does [of ns m d s res 1] show ?thesis by (auto intro: does_more)
  qed
  then have "does ns m d (start_prog (plain_path ns) s res) (m(n \<mapsto> s)) (posted_answer n) (Suc (n + 1))"
    unfolding start_prog_def by (rule does_entity)
  then show ?thesis unfolding post_program_stages [OF assms(4)] by simp
qed

text \<open>The other three make at most two calls.\<close>

lemma get_does:
  assumes "int n \<le> INT_MAX"
  shows "\<exists>st r. does ns m d (get_program (inst_path ns n) res) m (st, r) 2 \<and> rest_step p m (Read n) m (res_result r) (res_body r)"
proof -
  have ep: "drop (pos_plus (find_last_of SLASH (inst_path ns n)) 1) (inst_path ns n) = show_nat n"
    using last_component_instance [of "plain_path ns" n] by (simp add: last_component_def inst_path_def)
  have st: "stoi (show_nat n) = Some (int n)" using assms by (simp add: stoi_show_nat)
  note program = get_program_def ep Let_def st if_not_P [OF option.distinct(2)]
  show ?thesis
  proof (cases "m n")
    case None
    let ?r = "set_length (set_body missing_body (set_type ''application/json'' (set_result 404 res)))"
    have "does ns m d (get_program (inst_path ns n) res) m (False, ?r) (Suc (Suc 0))"
      unfolding program by (rule does_exists) (simp add: None does_done missing_body_def)
    moreover have "rest_step p m (Read n) m (res_result ?r) (res_body ?r)"
      using None by (simp add: response_simps rest_step.read_miss)
    ultimately show ?thesis by (intro exI [of _ False] exI [of _ ?r]) (simp add: numeral_2_eq_2)
  next
    case (Some s)
    then have some: "m n \<noteq> None" by simp
    let ?r = "set_length (set_body s (set_type ''application/json'' (set_result 200 res)))"
    have "does ns m d (get_program (inst_path ns n) res) m (True, ?r) (Suc (Suc 0))"
      unfolding program
      by (rule does_exists, subst if_P [OF some], rule does_read, rule Some, simp only: prod.case if_True, rule does_done)
    moreover have "rest_step p m (Read n) m (res_result ?r) (res_body ?r)"
      using Some by (simp add: response_simps rest_step.read_hit)
    ultimately show ?thesis by (intro exI [of _ True] exI [of _ ?r]) (simp add: numeral_2_eq_2)
  qed
qed

lemma put_does:
  assumes "skip_headers (c_string (req_body req)) = Inr s"
  shows "\<exists>st r. does ns m d (put_program (inst_path ns n) True req res) (m(n \<mapsto> s)) (st, r) 2 \<and>
    rest_step (plain_path ns) m (Replace n s) (m(n \<mapsto> s)) (res_result r) (res_body r)"
proof -
  let ?r = "set_body (edited_body (plain_path ns) n) (set_type ''application/json''
    (if m n \<noteq> None then set_result 200 res else set_result 201 res))"
  have body: "''Edited '' @ inst_path ns n @ '' on the server'' @ [LF] = edited_body (plain_path ns) n"
    by (simp add: edited_body_def inst_path_def)
  have "does ns m d (put_program (inst_path ns n) True req res) (m(n \<mapsto> s)) (True, ?r) (Suc (Suc 0))"
    unfolding put_program_def Let_def assms of_result_def sum.case body if_True
    by (rule does_exists, rule does_write, rule does_done)
  moreover have "rest_step (plain_path ns) m (Replace n s) (m(n \<mapsto> s)) (res_result ?r) (res_body ?r)"
    using rest_step.replace [of "plain_path ns" m n s] by (cases "m n = None") (simp_all add: response_simps)
  ultimately show ?thesis by (intro exI [of _ True] exI [of _ ?r]) (simp add: numeral_2_eq_2)
qed

lemma delete_does:
  "\<exists>st r. does ns m d (delete_program (inst_path ns n) True res) (m(n := None)) (st, r) 2 \<and>
    rest_step (plain_path ns) m (Remove n) (m(n := None)) (res_result r) (res_body r)"
proof (cases "m n")
  case None
  then have same: "m(n := None) = m" by (auto simp: fun_eq_iff)
  let ?r = "set_body missing_body (set_type ''application/json'' (set_length (set_result 404 res)))"
  have "does ns m d (delete_program (inst_path ns n) True res) m (False, ?r) (Suc (Suc 0))"
    unfolding delete_program_def Let_def if_True
    by (rule does_exists) (simp add: None does_done missing_body_def)
  moreover have "rest_step (plain_path ns) m (Remove n) m (res_result ?r) (res_body ?r)"
    using None by (simp add: response_simps rest_step.remove_miss)
  ultimately show ?thesis unfolding same by (intro exI [of _ False] exI [of _ ?r]) (simp add: numeral_2_eq_2)
next
  case (Some s)
  let ?r = "set_length (set_body (deleted_body (plain_path ns) n) (set_type ''application/json'' (set_result 200 res)))"
  have some: "m n \<noteq> None" using Some by simp
  have r: "res_result ?r = 200" "res_body ?r = deleted_body (plain_path ns) n" by (simp_all add: response_simps)
  have body: "''Deleted '' @ inst_path ns n @ '' from the server'' @ [LF] = deleted_body (plain_path ns) n"
    by (simp add: deleted_body_def inst_path_def)
  have "does ns m d (delete_program (inst_path ns n) True res) (m(n := None)) (True, ?r) (Suc (Suc 0))"
    unfolding delete_program_def Let_def if_True body
    by (rule does_exists, subst if_P [OF some], rule does_delete, rule some, subst if_P [OF TrueI], rule does_done)
  moreover have "rest_step (plain_path ns) m (Remove n) (m(n := None)) (res_result ?r) (res_body ?r)"
    unfolding r by (rule rest_step.remove_hit [where m = m and n = n]) (rule some)
  ultimately show ?thesis by (intro exI [of _ True] exI [of _ ?r]) (simp add: numeral_2_eq_2)
qed

text \<open>The calls a request makes at most, with the collection as it is when it starts.\<close>

fun turns :: "store \<Rightarrow> rest_op \<Rightarrow> nat" where
  "turns m (Create s) = card (dom m) + 3"
| "turns m _ = 2"

lemma request_does:
  assumes plain: "plain_name e" and not_id: "\<not> list_all isdigit e" and a: "SLASH \<notin> set a"
    and range: "in_range h m rop" and fin: "finite (dom m)" and d: "\<not> d \<Longrightarrow> m = Map.empty"
  shows "\<exists>m' st r. does (ds @ [e]) m d (crud_program (slashed ds) (request_of a e h rop) res) m' (st, r) (turns m rop) \<and>
    rest_step (plain_path (ds @ [e])) m rop m' (res_result r) (res_body r)"
proof -
  let ?ns = "ds @ [e]"
  have inst: "''.'' @ slashed ds @ ''/'' @ e @ ''/'' @ show_nat n = inst_path ?ns n" for n
    using plain_path_slashed(2) [of ds e "show_nat n"] plain_path_snoc [of ?ns "show_nat n"] by (simp add: inst_path_def)
  have digits: "list_all isdigit (last_component (e @ ''/'' @ show_nat n))" for n
    by (simp only: last_component_instance list_all_show_nat)
  note dispatch = crud_program_dispatch [OF _ a, where data_path = "slashed ds" and res = res]
  show ?thesis
  proof (cases rop)
    case (Create s)
    let ?req = "request_of a e h (Create s)"
    obtain n where n: "first_free m n" "n \<le> Suc (card (dom m))" using first_free_exists [OF fin] by blast
    moreover obtain n' where n': "first_free m n'" "int n' \<le> INT_MAX" using range Create by auto
    ultimately have int: "int n \<le> INT_MAX" using first_free_unique [of m n n'] by simp
    have "skip_headers (c_string (req_body ?req)) = Inr s" using range Create by simp
    from post_does [where ns = ?ns and d = d and res = res, OF n(1) int _ this] d
    have "does ?ns m d (post_program (plain_path ?ns) False ?req res) (m(n \<mapsto> s)) (posted_answer n) (turns m (Create s))"
      using n(2) by (auto intro: does_more)
    moreover have "crud_program (slashed ds) ?req res = post_program (plain_path ?ns) False ?req res"
      using dispatch [of ?req e] not_id by (simp add: last_component_entity [OF plain] Let_def plain_path_slashed(1) [simplified])
    moreover have "rest_step (plain_path ?ns) m (Create s) (m(n \<mapsto> s))
        (res_result (snd (posted_answer n))) (res_body (snd (posted_answer n)))"
      using rest_step.create [OF n(1), of "plain_path ?ns" s] by (simp add: posted_answer_def json_response_def)
    ultimately show ?thesis unfolding Create by (metis prod.collapse)
  next
    case (Read n)
    let ?req = "request_of a e h (Read n)"
    have "crud_program (slashed ds) ?req res = get_program (inst_path ?ns n) res"
      using dispatch [of ?req "e @ ''/'' @ show_nat n"] unfolding inst by simp
    with get_does [of n ?ns m d res "plain_path ?ns"] range Read show ?thesis by auto
  next
    case (Replace n s)
    let ?req = "request_of a e h (Replace n s)"
    have "crud_program (slashed ds) ?req res = put_program (inst_path ?ns n) True ?req res"
      using dispatch [of ?req "e @ ''/'' @ show_nat n"] digits [of n] unfolding inst by (simp add: Let_def)
    moreover have "skip_headers (c_string (req_body ?req)) = Inr s" using range Replace by simp
    ultimately show ?thesis using put_does [of ?req s ?ns m d n res] unfolding Replace turns.simps by metis
  next
    case (Remove n)
    let ?req = "request_of a e h (Remove n)"
    have "crud_program (slashed ds) ?req res = delete_program (inst_path ?ns n) True res"
      using dispatch [of ?req "e @ ''/'' @ show_nat n"] digits [of n] unfolding inst by (simp add: Let_def)
    then show ?thesis using delete_does [of ?ns m d n res] unfolding Remove turns.simps by metis
  qed
qed

text \<open>
  C16: Requests for different collections do not interfere.  Let any number of threads each handle
  a POST, GET, PUT or DELETE for a collection of its own, under any schedule of their calls to
  the file system, a write being two of them.  None of them fails, and a thread that has had its
  turns, twice the calls it makes at most, which are two or, for a POST, three more than the
  collection has entries, has answered as the resource store prescribes for its request alone,
  and its collection is what that request makes of it.
\<close>

theorem disjoint_requests:
  assumes "distinct (map fst xs)" and "SLASH \<notin> set a"
    and "\<And>e rop. (e, rop) \<in> set xs \<Longrightarrow> rf.entity_path fs (ds @ [e]) \<and> \<not> list_all isdigit e \<and> in_range h (rf.collection fs (ds @ [e])) rop"
  shows "\<exists>fs' ps. run_schedule real_filesystem fs
      (map (\<lambda>(e, rop). opened (crud_program (slashed ds) (request_of a e h rop) res)) xs) sched = Inr (fs', ps) \<and>
    (\<forall>i < length xs. case xs ! i of (e, rop) \<Rightarrow> 2 * turns (rf.collection fs (ds @ [e])) rop \<le> count_list sched i \<longrightarrow>
      (\<exists>st r. ps ! i = Done (st, r) \<and> rest_step (plain_path (ds @ [e])) (rf.collection fs (ds @ [e])) rop
        (rf.collection fs' (ds @ [e])) (res_result r) (res_body r)))"
proof -
  let ?ps = "map (\<lambda>(e, rop). opened (crud_program (slashed ds) (request_of a e h rop) res)) xs"
  let ?m = "\<lambda>e. rf.collection fs (ds @ [e])" and ?nss = "map (\<lambda>(e, rop). ds @ [e]) xs"
  let ?e = "\<lambda>i. fst (xs ! i)" and ?rop = "\<lambda>i. snd (xs ! i)"
  have "\<exists>m' x. does (ds @ [?e i]) (?m (?e i)) (real_dir fs (ds @ [?e i])) (?ps ! i) m' x (2 * turns (?m (?e i)) (?rop i)) \<and>
      rest_step (plain_path (ds @ [?e i])) (?m (?e i)) (?rop i) m' (res_result (snd x)) (res_body (snd x))"
    if i: "i < length xs" for i
  proof -
    have "(?e i, ?rop i) \<in> set xs" using i by simp
    from assms(3) [OF this] have e: "rf.entity_path fs (ds @ [?e i])" "\<not> list_all isdigit (?e i)" "in_range h (?m (?e i)) (?rop i)"
      by simp_all
    have "plain_name (?e i)" using e(1) by (simp add: rf.entity_path_def)
    moreover have "?m (?e i) = Map.empty" if "\<not> real_dir fs (ds @ [?e i])"
      by (rule ext) (metis rf.collection_dir [OF e(1)] that)
    moreover have "?ps ! i = opened (crud_program (slashed ds) (request_of a (?e i) h (?rop i)) res)" using i by (simp add: split_def)
    ultimately show ?thesis
      using request_does [OF _ e(2) assms(2) e(3) real_collection_finite, of "real_dir fs (ds @ [?e i])" ds res] does_opened
      by (metis snd_conv)
  qed
  then obtain ms ys where does: "\<And>i. i < length xs \<Longrightarrow> does (ds @ [?e i]) (?m (?e i)) (real_dir fs (ds @ [?e i])) (?ps ! i)
      (ms i) (ys i) (2 * turns (?m (?e i)) (?rop i))"
    and rest: "\<And>i. i < length xs \<Longrightarrow>
      rest_step (plain_path (ds @ [?e i])) (?m (?e i)) (?rop i) (ms i) (res_result (snd (ys i))) (res_body (snd (ys i)))"
    by metis
  have nss: "distinct ?nss" using assms(1) by (simp add: distinct_map inj_on_def split_def)
  have len: "length ns = Suc (length ds)" if "ns \<in> set ?nss" for ns using that by auto
  have l: "length ?ps = length ?nss" by simp
  have each: "rf.entity_path fs (?nss ! i) \<and> does (?nss ! i) (rf.collection fs (?nss ! i)) (real_dir fs (?nss ! i)) (?ps ! i)
      (ms i) (ys i) (2 * turns (?m (?e i)) (?rop i))" if "i < length ?nss" for i
  proof -
    have i: "i < length xs" using that by simp
    then have "(?e i, ?rop i) \<in> set xs" by simp
    from assms(3) [OF this] does [OF i] i show ?thesis by (simp add: split_def)
  qed
  obtain fs' ps where run: "run_schedule real_filesystem fs ?ps sched = Inr (fs', ps)"
    and ended: "\<forall>i < length ?nss. 2 * turns (?m (?e i)) (?rop i) \<le> count_list sched i \<longrightarrow>
      ps ! i = Done (ys i) \<and> rf.collection fs' (?nss ! i) = ms i"
    using rf.workers_run [OF nss len l each, of sched] by blast
  have "\<exists>st r. ps ! i = Done (st, r) \<and> rest_step (plain_path (ds @ [e])) (?m e) rop (rf.collection fs' (ds @ [e])) (res_result r) (res_body r)"
    if i: "i < length xs" and x: "xs ! i = (e, rop)" and t: "2 * turns (?m e) rop \<le> count_list sched i" for i e rop
    using ended [rule_format, of i] rest [OF i] i x t by (cases "ys i") simp
  with run show ?thesis by auto
qed

text \<open>For creations: each takes the first free number of its collection.\<close>

lemma disjoint_posts:
  assumes "distinct (map fst xs)" and "SLASH \<notin> set a"
    and "\<And>i. i < length xs \<Longrightarrow> rf.entity_path fs (ds @ [fst (xs ! i)]) \<and> \<not> list_all isdigit (fst (xs ! i)) \<and>
      carried h (Create (snd (xs ! i))) \<and> first_free (rf.collection fs (ds @ [fst (xs ! i)])) (n i) \<and> int (n i) \<le> INT_MAX"
  shows "\<exists>fs' ps. run_schedule real_filesystem fs
      (map (\<lambda>(e, s). crud_program (slashed ds) (request_of a e h (Create s)) res) xs) sched = Inr (fs', ps) \<and>
    (\<forall>i < length xs. n i + 2 \<le> count_list sched i \<longrightarrow>
      ps ! i = Done (True, json_response 201 (id_body (n i)) (Some (length (id_body (n i))))) \<and>
      rf.collection fs' (ds @ [fst (xs ! i)]) = (rf.collection fs (ds @ [fst (xs ! i)]))(n i \<mapsto> snd (xs ! i)))"
proof -
  let ?ps = "map (\<lambda>(e, s). crud_program (slashed ds) (request_of a e h (Create s)) res) xs"
  let ?nss = "map (\<lambda>(e, s). ds @ [e]) xs" and ?m = "\<lambda>i. rf.collection fs (ds @ [fst (xs ! i)])"
  have nss: "distinct ?nss" using assms(1) by (simp add: distinct_map inj_on_def split_def)
  have len: "length ns = Suc (length ds)" if "ns \<in> set ?nss" for ns using that by auto
  have l: "length ?ps = length ?nss" by simp
  have each: "rf.entity_path fs (?nss ! i) \<and> does (?nss ! i) (rf.collection fs (?nss ! i)) (real_dir fs (?nss ! i)) (?ps ! i)
      ((?m i)(n i \<mapsto> snd (xs ! i))) (posted_answer (n i)) (n i + 2)" if "i < length ?nss" for i
  proof -
    have i: "i < length xs" using that by simp
    let ?req = "request_of a (fst (xs ! i)) h (Create (snd (xs ! i)))"
    have e: "rf.entity_path fs (ds @ [fst (xs ! i)])" "plain_name (fst (xs ! i))"
      using assms(3) [OF i] by (simp_all add: rf.entity_path_def)
    have "?m i = Map.empty" if "\<not> real_dir fs (ds @ [fst (xs ! i)])" by (rule ext) (metis rf.collection_dir [OF e(1)] that)
    moreover have "skip_headers (c_string (req_body ?req)) = Inr (snd (xs ! i))" using assms(3) [OF i] by simp
    ultimately have "does (ds @ [fst (xs ! i)]) (?m i) (real_dir fs (ds @ [fst (xs ! i)]))
        (post_program (plain_path (ds @ [fst (xs ! i)])) False ?req res) ((?m i)(n i \<mapsto> snd (xs ! i))) (posted_answer (n i)) (n i + 2)"
      using assms(3) [OF i] by (intro post_does) simp_all
    moreover have "crud_program (slashed ds) ?req res = post_program (plain_path (ds @ [fst (xs ! i)])) False ?req res"
      using crud_program_post [OF e(2) _ assms(2)] post_program_stages [of ?req] assms(3) [OF i] by simp
    ultimately show ?thesis using e(1) i by (simp add: split_def)
  qed
  obtain fs' ps where run: "run_schedule real_filesystem fs ?ps sched = Inr (fs', ps)"
    and ended: "\<forall>i < length ?nss. n i + 2 \<le> count_list sched i \<longrightarrow>
      ps ! i = Done (posted_answer (n i)) \<and> rf.collection fs' (?nss ! i) = (?m i)(n i \<mapsto> snd (xs ! i))"
    using rf.workers_run [OF nss len l each, of sched] by blast
  with run show ?thesis by (simp add: posted_answer_def split_def)
qed

theorem disjoint_requests_witness:
  "\<exists>fs' ps. run_schedule real_filesystem sample_fs
      (map (\<lambda>(e, rop). opened (crud_program ''/data'' (request_of ''api'' e ''x'' rop) empty_response))
        [(''Shoes'', Create ''{a}''), (''Hats'', Replace 7 ''{a}'')]) [0, 1, 0, 1, 0, 1, 0, 1, 0, 0, 0, 0] = Inr (fs', ps) \<and>
    rf.collection fs' [''data'', ''Shoes''] = [1 \<mapsto> ''{}'', 2 \<mapsto> ''{a}''] \<and>
    rf.collection fs' [''data'', ''Hats''] = [7 \<mapsto> ''{a}'']"
proof -
  let ?xs = "[(''Shoes'', Create ''{a}''), (''Hats'', Replace 7 ''{a}'')]" and ?sched = "[0, 1, 0, 1, 0, 1, 0, 1, 0, 0, 0, 0]"
  have digits: "\<not> list_all isdigit ''Hats''" by code_simp
  have free: "first_free [1 \<mapsto> ''{}''] 2" "int 2 \<le> INT_MAX" by (simp_all add: first_free_def INT_MAX_def)
  then have "in_range ''x'' [1 \<mapsto> ''{}''] (Create ''{a}'')" using sample_facts(4) unfolding in_range.simps by blast
  moreover have "in_range ''x'' (\<lambda>_. None) (Replace 7 ''{a}'')" using sample_facts(4) by simp
  ultimately have hyp: "rf.entity_path sample_fs ([''data''] @ [e]) \<and> \<not> list_all isdigit e \<and>
      in_range ''x'' (rf.collection sample_fs ([''data''] @ [e])) rop" if "(e, rop) \<in> set ?xs" for e rop
    using that sample_entity_path hats_free sample_facts(1) digits sample_collection
    by (auto simp del: in_range.simps)
  have "distinct (map fst ?xs)" by simp
  from disjoint_requests [OF this sample_facts(2) hyp, of empty_response ?sched] obtain fs' ps where
    run: "run_schedule real_filesystem sample_fs
      (map (\<lambda>(e, rop). opened (crud_program (slashed [''data'']) (request_of ''api'' e ''x'' rop) empty_response)) ?xs) ?sched = Inr (fs', ps)"
    and ended: "\<forall>i < length ?xs. case ?xs ! i of (e, rop) \<Rightarrow>
      2 * turns (rf.collection sample_fs ([''data''] @ [e])) rop \<le> count_list ?sched i \<longrightarrow>
      (\<exists>st r. ps ! i = Done (st, r) \<and> rest_step (plain_path ([''data''] @ [e])) (rf.collection sample_fs ([''data''] @ [e])) rop
        (rf.collection fs' ([''data''] @ [e])) (res_result r) (res_body r))" by blast
  from ended [rule_format, of 0] obtain r :: http_response where
    "rest_step (plain_path [''data'', ''Shoes'']) [1 \<mapsto> ''{}''] (Create ''{a}'') (rf.collection fs' [''data'', ''Shoes'']) (res_result r) (res_body r)"
    by (auto simp: sample_collection simp flip: One_nat_def)
  then have "rf.collection fs' [''data'', ''Shoes''] = [1 \<mapsto> ''{}'', 2 \<mapsto> ''{a}'']"
    using first_free_unique [OF free(1)] by (auto elim!: rest_createE)
  moreover from ended [rule_format, of 1] obtain r :: http_response where
    "rest_step (plain_path [''data'', ''Hats'']) (\<lambda>_. None) (Replace 7 ''{a}'') (rf.collection fs' [''data'', ''Hats'']) (res_result r) (res_body r)"
    using hats_free(2) by auto
  then have "rf.collection fs' [''data'', ''Hats''] = [7 \<mapsto> ''{a}'']" by (cases rule: rest_step.cases) auto
  ultimately show ?thesis using run unfolding sample_facts(5) by blast
qed

end
