(* ===== verification/Torn_Reads.thy ===== *)
theory Torn_Reads
  imports Disjoint_Requests
begin

section \<open>Reading while another thread writes\<close>

text \<open>
  Between the two steps of a write (\<open>opened\<close>) handlers on other threads can find the file empty.
  Here one thread replaces an instance and any number of others read it.
\<close>

subsection \<open>One writer and the readers of an instance\<close>

text \<open>Where the writer and a reader are after \<open>t\<close> turns; \<open>bs\<close> are the contents a reader can have seen.\<close>

definition put_stage :: "string \<Rightarrow> string \<Rightarrow> (bool \<Rightarrow> 'a fs_prog) \<Rightarrow> 'a \<Rightarrow> nat \<Rightarrow> 'a fs_prog" where
  "put_stage p s k y t =
     (if t = 0 then File_Exists p k
      else if t = 1 then Write_File p [] (Write_File p s (Done y))
      else if t = 2 then Write_File p s (Done y)
      else Done y)"

definition get_stage ::
    "string \<Rightarrow> (bool \<Rightarrow> 'a fs_prog) \<Rightarrow> (string \<times> bool \<Rightarrow> 'a fs_prog) \<Rightarrow> (string \<Rightarrow> 'a) \<Rightarrow> string set \<Rightarrow> nat \<Rightarrow> 'a fs_prog \<Rightarrow> bool" where
  "get_stage p k k' z bs t q \<longleftrightarrow>
     (if t = 0 then q = File_Exists p k
      else if t = 1 then q = Read_File p k'
      else \<exists>b \<in> bs. q = Done (z b))"

definition seen :: "string \<Rightarrow> string \<Rightarrow> nat \<Rightarrow> string" where
  "seen old s t = (if t < 2 then old else if t = 2 then [] else s)"

context filesystem_contract
begin

lemma instance_calls:
  assumes "entity_path fs ns"
  shows "file_exists F fs (inst_path ns n) = Inr (collection fs ns n \<noteq> None)"
    and "collection fs ns n = Some b \<Longrightarrow> read_file F fs (inst_path ns n) [] = Inr (b, True)"
    and "\<exists>fs'. write_file F fs (inst_path ns n) s = Inr fs' \<and> entity_path fs' ns \<and>
      collection fs' ns = (collection fs ns)(n \<mapsto> s)"
proof -
  show "file_exists F fs (inst_path ns n) = Inr (collection fs ns n \<noteq> None)"
    using entity_exists(2) [OF assms, of n] by (simp add: inst_path_def)
  show "read_file F fs (inst_path ns n) [] = Inr (b, True)" if "collection fs ns n = Some b"
    using read_law [of fs "ns @ [show_nat n]" b "[]"] assms that
    by (simp add: plain_path_snoc inst_path_def entity_path_def collection_def)
  show "\<exists>fs'. write_file F fs (inst_path ns n) s = Inr fs' \<and> entity_path fs' ns \<and>
      collection fs' ns = (collection fs ns)(n \<mapsto> s)"
    using write_instance [OF assms, of n s] by (auto simp: inst_path_def)
qed

definition torn ::
    "string list \<Rightarrow> nat \<Rightarrow> store \<Rightarrow> string \<Rightarrow> string \<Rightarrow> (nat \<Rightarrow> 'a fs_prog) \<Rightarrow> (nat \<Rightarrow> 'a fs_prog \<Rightarrow> bool) \<Rightarrow> nat \<Rightarrow>
     (nat \<Rightarrow> nat) \<Rightarrow> 'fs \<Rightarrow> 'a fs_prog list \<Rightarrow> bool" where
  "torn ns n m old s writer reader r t fs ps \<longleftrightarrow> length ps = Suc r \<and> entity_path fs ns \<and>
     collection fs ns = m(n \<mapsto> seen old s (t 0)) \<and> ps ! 0 = writer (t 0) \<and>
     (\<forall>i < r. reader (t (Suc i)) (ps ! Suc i))"

lemma torn_step:
  assumes I: "torn ns n m old s (put_stage (inst_path ns n) s k y) (get_stage (inst_path ns n) g g' z {old, [], s}) r t fs ps"
    and k: "k True = Write_File (inst_path ns n) [] (Write_File (inst_path ns n) s (Done y))"
    and g: "g True = Read_File (inst_path ns n) g'" "\<And>b. g' (b, True) = Done (z b)" and j: "j < Suc r"
  shows "\<exists>fs' q. prog_step F fs (ps ! j) = Inr (fs', q) \<and>
    torn ns n m old s (put_stage (inst_path ns n) s k y) (get_stage (inst_path ns n) g g' z {old, [], s}) r
      (t(j := Suc (t j))) fs' (ps[j := q])"
proof -
  let ?p = "inst_path ns n"
  have e: "entity_path fs ns" and l: "length ps = Suc r" and c: "collection fs ns = m(n \<mapsto> seen old s (t 0))"
    and w: "ps ! 0 = put_stage ?p s k y (t 0)" and rd: "\<And>i. i < r \<Longrightarrow> get_stage ?p g g' z {old, [], s} (t (Suc i)) (ps ! Suc i)"
    using I by (auto simp: torn_def)
  have ex: "file_exists F fs ?p = Inr True" using instance_calls(1) [OF e, of n] c by simp
  have r: "read_file F fs ?p [] = Inr (seen old s (t 0), True)" using instance_calls(2) [OF e, of n] c by simp
  have readers: "\<forall>i<r. get_stage ?p g g' z {old, [], s} ((t(0 := v)) (Suc i)) (ps[0 := q] ! Suc i)" for q v using rd by simp
  show ?thesis
  proof (cases j)
    case 0
    have "\<exists>fs' q. prog_step F fs (ps ! 0) = Inr (fs', q) \<and> q = put_stage ?p s k y (Suc (t 0)) \<and> entity_path fs' ns \<and>
        collection fs' ns = m(n \<mapsto> seen old s (Suc (t 0)))"
    proof -
      consider "t 0 = 0" | "t 0 = 1" | "t 0 = 2" | "2 < t 0" by linarith
      then show ?thesis
      proof cases
        case 1
        then show ?thesis using ex e c k w by (simp add: put_stage_def seen_def)
      next
        case 2
        from instance_calls(3) [OF e, of n "[]"] obtain fs' where
          "write_file F fs ?p [] = Inr fs'" "entity_path fs' ns" "collection fs' ns = (collection fs ns)(n \<mapsto> [])" by blast
        with 2 w c show ?thesis by (simp add: put_stage_def seen_def)
      next
        case 3
        from instance_calls(3) [OF e, of n s] obtain fs' where
          "write_file F fs ?p s = Inr fs'" "entity_path fs' ns" "collection fs' ns = (collection fs ns)(n \<mapsto> s)" by blast
        with 3 w c show ?thesis by (simp add: put_stage_def seen_def)
      next
        case 4
        then show ?thesis using e c w by (simp add: put_stage_def seen_def)
      qed
    qed
    with l readers 0 show ?thesis by (auto simp: torn_def)
  next
    case (Suc i)
    then have i: "i < r" using j by simp
    have "\<exists>q. prog_step F fs (ps ! Suc i) = Inr (fs, q) \<and> get_stage ?p g g' z {old, [], s} (Suc (t (Suc i))) q"
      using rd [OF i] ex r g by (auto simp: get_stage_def seen_def split: if_splits)
    then obtain q where q: "prog_step F fs (ps ! Suc i) = Inr (fs, q)" "get_stage ?p g g' z {old, [], s} (Suc (t (Suc i))) q" by blast
    have "get_stage ?p g g' z {old, [], s} ((t(j := Suc (t j))) (Suc i')) (ps[j := q] ! Suc i')" if "i' < r" for i'
      using rd [OF that] q(2) Suc i l by (cases "i' = i") auto
    then show ?thesis using q(1) Suc e c w l by (auto simp: torn_def)
  qed
qed

lemma torn_schedule:
  assumes e: "entity_path fs ns" and m: "collection fs ns n = Some old"
    and k: "k True = Write_File (inst_path ns n) [] (Write_File (inst_path ns n) s (Done y))"
    and g: "g True = Read_File (inst_path ns n) g'" "\<And>b. g' (b, True) = Done (z b)"
  shows "\<exists>fs' ps. run_schedule F fs (File_Exists (inst_path ns n) k # replicate r (File_Exists (inst_path ns n) g)) sched = Inr (fs', ps) \<and>
    torn ns n (collection fs ns) old s (put_stage (inst_path ns n) s k y) (get_stage (inst_path ns n) g g' z {old, [], s}) r
      (count_list sched) fs' ps"
proof (induction sched rule: rev_induct)
  case Nil
  have "(collection fs ns)(n \<mapsto> old) = collection fs ns" using m by (auto simp: fun_eq_iff)
  then show ?case using e by (simp add: torn_def put_stage_def get_stage_def seen_def)
next
  case (snoc j sched)
  then obtain fs1 ps where run: "run_schedule F fs (File_Exists (inst_path ns n) k # replicate r (File_Exists (inst_path ns n) g)) sched = Inr (fs1, ps)"
    and I: "torn ns n (collection fs ns) old s (put_stage (inst_path ns n) s k y) (get_stage (inst_path ns n) g g' z {old, [], s}) r
      (count_list sched) fs1 ps" by blast
  have l: "length ps = Suc r" using I by (simp add: torn_def)
  show ?case
  proof (cases "j < Suc r")
    case True
    from torn_step [OF I k g True] obtain fs' q where q: "prog_step F fs1 (ps ! j) = Inr (fs', q)"
      and J: "torn ns n (collection fs ns) old s (put_stage (inst_path ns n) s k y) (get_stage (inst_path ns n) g g' z {old, [], s}) r
        ((count_list sched)(j := Suc (count_list sched j))) fs' (ps[j := q])" by blast
    have "(count_list sched)(j := Suc (count_list sched j)) = count_list (sched @ [j])" by (auto simp: fun_eq_iff)
    moreover have "run_schedule F fs (File_Exists (inst_path ns n) k # replicate r (File_Exists (inst_path ns n) g)) (sched @ [j]) =
        Inr (fs', ps[j := q])"
      using run q True l by (simp add: run_schedule_append)
    ultimately show ?thesis using J by metis
  next
    case False
    then have "count_list (sched @ [j]) i = count_list sched i" if "i < Suc r" for i using that by auto
    then show ?thesis using run I False l by (simp add: run_schedule_append torn_def)
  qed
qed

text \<open>Both calls of the first reader fall between the two steps of the write.\<close>

lemma torn_empty:
  assumes e: "entity_path fs ns" and m: "collection fs ns n = Some old"
    and k: "k True = Write_File (inst_path ns n) [] (Write_File (inst_path ns n) s (Done y))"
    and g: "g True = Read_File (inst_path ns n) g'" "\<And>b. g' (b, True) = Done (z b)" and r: "0 < r"
  shows "\<exists>sched fs' ps. run_schedule F fs (File_Exists (inst_path ns n) k # replicate r (File_Exists (inst_path ns n) g)) sched =
    Inr (fs', ps) \<and> ps ! 1 = Done (z [])"
proof -
  obtain r' where r': "r = Suc r'" using r by (cases r) auto
  from instance_calls(3) [OF e, of n "[]"] obtain fs' where
    w: "write_file F fs (inst_path ns n) [] = Inr fs'" "entity_path fs' ns" "collection fs' ns n = Some []" by auto
  have "file_exists F fs (inst_path ns n) = Inr True" "file_exists F fs' (inst_path ns n) = Inr True"
    "read_file F fs' (inst_path ns n) [] = Inr ([], True)"
    using instance_calls(1) [OF e, of n] instance_calls(1) [OF w(2), of n] instance_calls(2) [OF w(2,3)] m w(3) by simp_all
  with k g w(1) show ?thesis by (intro exI [of _ "[0, 0, 1, 1]"]) (simp add: r')
qed

end





end
