(* ===== verification/Markdown_Threads.thy ===== *)
theory Markdown_Threads
  imports Markdown_Handler Crud_Handler
begin

section \<open>The Markdown handler on several threads\<close>

text \<open>
  src/markdown\_request\_handler.cc renders into a file beside the source whose name depends on
  the request only, so two handlers of the same document on two threads of the server share it.
  Here the handler is the program of its accesses to the files, each one atomic step: the two
  tests for existence, the reading of a file from opening to closing it, the removal, and the
  appending of the rendering, which an output stream writes when it is closed.
\<close>

datatype 'a act = Return 'a | Step "real_fs \<Rightarrow> real_fs \<times> 'a act"

primrec run_act :: "'a act \<Rightarrow> real_fs \<Rightarrow> real_fs \<times> 'a" where
  "run_act (Return x) = (\<lambda>fs. (fs, x))"
| "run_act (Step k) = (\<lambda>fs. case map_prod id run_act (k fs) of (fs', g) \<Rightarrow> g fs')"

fun act_step :: "real_fs \<Rightarrow> 'a act \<Rightarrow> real_fs \<times> 'a act" where
  "act_step fs (Return x) = (fs, Return x)"
| "act_step fs (Step k) = k fs"

fun run_acts :: "real_fs \<Rightarrow> 'a act list \<Rightarrow> nat list \<Rightarrow> real_fs \<times> 'a act list" where
  "run_acts fs as [] = (fs, as)"
| "run_acts fs as (i # sched) =
     (if i < length as then (case act_step fs (as ! i) of (fs', a) \<Rightarrow> run_acts fs' (as[i := a]) sched)
      else run_acts fs as sched)"

text \<open>From the opening of the HTML file on: it is written, read back and removed.\<close>

definition answer_program :: "string \<Rightarrow> http_response \<Rightarrow> answer act" where
  "answer_program html_path res =
     Step (\<lambda>fs. (fs,
       let res = set_body [] res in
       case input_file fs html_path of
         None \<Rightarrow> Return (False, plain_text_error (''Error opening file'' @ [LF]) 500 res)
       | Some html \<Rightarrow>
           (let res = set_body (concat (read_lines html)) res;
                res = set_result 200 res;
                res = set_length res;
                res = set_type ''text/html'' res
            in Step (\<lambda>fs. (case c_remove fs html_path of None \<Rightarrow> fs | Some fs' \<Rightarrow> fs', Return (True, res))))))"

definition emit_program :: "string \<Rightarrow> string list \<Rightarrow> http_response \<Rightarrow> answer act" where
  "emit_program html_path lines res =
     Step (\<lambda>fs. (append_file fs html_path (render_lines False lines), answer_program html_path res))"

definition render_program :: "string \<Rightarrow> http_response \<Rightarrow> answer act" where
  "render_program md_path res =
     (if \<not> ends_with ''.md'' md_path then
        Return (False, plain_text_error (''File requested is not a markdown file'' @ [LF]) 400 res)
      else
        Step (\<lambda>fs. (fs,
          if real_file_exists fs md_path = Inr False then
            Return (False, plain_text_error (''File does not exist'' @ [LF]) 404 res)
          else
            Step (\<lambda>fs. (fs,
              case input_file fs md_path of
                None \<Rightarrow> Return (False, plain_text_error (''Error opening file'' @ [LF]) 500 res)
              | Some md \<Rightarrow>
                  (let lines = read_lines md;
                       html_path = take (length md_path - 3) md_path @ ''.html''
                   in Step (\<lambda>fs. (fs,
                        if real_file_exists fs html_path = Inr True then
                          Step (\<lambda>fs.
                            case c_remove fs html_path of
                              None \<Rightarrow> (fs, Return (False, plain_text_error (''Error deleting file'' @ [LF]) 500 res))
                            | Some fs' \<Rightarrow> (fs', emit_program html_path lines res))
                        else emit_program html_path lines res))))))))"

definition markdown_program :: "string \<Rightarrow> http_request \<Rightarrow> http_response \<Rightarrow> answer act result" where
  "markdown_program data_path req res =
     bind_res (md_file_path data_path (req_target req)) (\<lambda>md_path. Inr (render_program md_path res))"

text \<open>Run alone, the program is the handler.\<close>

lemma markdown_program_alone:
  "bind_res (markdown_program data_path req res) (\<lambda>p. Inr (run_act p fs)) =
   bind_res (markdown_handle_request data_path fs req res) (\<lambda>(fs', st, res). Inr (fs', st, res))"
proof (cases "md_file_path data_path (req_target req)")
  case (Inr md_path)
  then show ?thesis
    by (simp add: markdown_program_def markdown_handle_request_def render_program_def emit_program_def answer_program_def Let_def
        split: option.split)
qed (simp add: markdown_program_def markdown_handle_request_def)

lemma run_acts_append: "run_acts fs as (s @ t) = (case run_acts fs as s of (fs', as') \<Rightarrow> run_acts fs' as' t)"
  by (induction s arbitrary: fs as) (auto split: prod.split)

text \<open>What each thread meets on its way to the HTML file, which is not there yet.\<close>

lemma render_until_emit:
  assumes "real_ok fs" and "list_all plain_name (ds @ [f @ ''.md''])" and "plain_name (f @ ''.html'')"
    and "real_content fs (ds @ [f @ ''.md'']) = Some md"
    and "real_content fs (ds @ [f @ ''.html'']) = None" and "\<not> real_dir fs (ds @ [f @ ''.html''])"
    and "i < length as" and "as ! i = render_program (md_path_of ds (f @ ''.md'')) res"
  shows "run_acts fs as [i, i, i] = (fs, as[i := emit_program (md_path_of ds (f @ ''.html'')) (read_lines md) res])"
proof -
  let ?mp = "md_path_of ds (f @ ''.md'')" and ?hp = "md_path_of ds (f @ ''.html'')"
  have hp: "list_all plain_name (ds @ [f @ ''.html''])" using assms(2,3) by simp
  note mds = same_path_resolve [OF md_path_same [OF assms(2)]]
  note hds = same_path_resolve [OF md_path_same [OF hp]]
  have ends: "ends_with ''.md'' ?mp" by (simp add: ends_with_def md_path_of_def)
  have html_path: "take (length ?mp - 3) ?mp @ ''.html'' = ?hp" by (simp add: md_path_of_def)
  have md_file: "real_file_exists fs ?mp \<noteq> Inr False" "input_file fs ?mp = Some md"
    using real_exists_law [OF assms(1,2)] input_file_plain [OF assms(1,2)] assms(4) real_file_no_dir [of fs "ds @ [f @ ''.md'']"]
    unfolding mds by simp_all
  have no_html: "real_file_exists fs ?hp \<noteq> Inr True"
    using real_exists_law [OF assms(1) hp] assms(5,6) unfolding hds by simp
  define p3 where "p3 = Step (\<lambda>fs. (fs, if real_file_exists fs ?hp = Inr True then
        Step (\<lambda>fs. case c_remove fs ?hp of
            None \<Rightarrow> (fs, Return (False, plain_text_error (''Error deleting file'' @ [LF]) 500 res))
          | Some fs' \<Rightarrow> (fs', emit_program ?hp (read_lines md) res))
      else emit_program ?hp (read_lines md) res))"
  obtain p2 where p2: "act_step fs (render_program ?mp res) = (fs, p2)" "act_step fs p2 = (fs, p3)"
    using ends md_file by (simp add: render_program_def Let_def html_path p3_def)
  have "act_step fs p3 = (fs, emit_program ?hp (read_lines md) res)" using no_html by (simp add: p3_def)
  with p2 assms(7,8) show ?thesis by simp
qed

definition html_answer :: "string \<Rightarrow> http_response" where
  "html_answer html = \<lparr>res_body = html, res_result = 200, res_content_length = Some (length html),
     res_content_type = Some ''text/html''\<rparr>"

definition cannot_open :: http_response where
  "cannot_open = \<lparr>res_body = ''Error opening file'' @ [LF], res_result = 500,
     res_content_length = Some (length (''Error opening file'' @ [LF])), res_content_type = Some ''text/plain''\<rparr>"

lemma answer_steps:
  "input_file fs hp = None \<Longrightarrow> act_step fs (answer_program hp res) = (fs, Return (False, cannot_open))"
  "input_file fs hp = Some html \<Longrightarrow> c_remove fs hp = Some fs' \<Longrightarrow>
   \<exists>q. act_step fs (answer_program hp res) = (fs, q) \<and>
     act_step fs q = (fs', Return (True, html_answer (filter (\<lambda>c. c \<noteq> LF) html)))"
  by (cases res; simp add: answer_program_def Let_def plain_text_error_def response_simps cannot_open_def html_answer_def
      concat_read_lines)+

text \<open>The rendering appended twice, and the file then removed.\<close>

lemma appended_twice:
  assumes "real_ok fs" and hp: "list_all plain_name (ds @ [h])" and "real_dir fs ds"
    and "real_content fs (ds @ [h]) = None" and "\<not> real_dir fs (ds @ [h])"
  obtains fs3 where "input_file (append_file (append_file fs (md_path_of ds h) r) (md_path_of ds h) r) (md_path_of ds h) = Some (r @ r)"
    and "c_remove (append_file (append_file fs (md_path_of ds h) r) (md_path_of ds h) r) (md_path_of ds h) = Some fs3"
    and "input_file fs3 (md_path_of ds h) = None" and "real_content fs3 = real_content fs"
proof -
  note hds = same_path_resolve [OF md_path_same [OF hp]]
  let ?fs1 = "append_file fs (md_path_of ds h) r"
  let ?fs2 = "append_file ?fs1 (md_path_of ds h) r"
  have fs1: "real_ok ?fs1" "real_content ?fs1 = (real_content fs)(ds @ [h] \<mapsto> r)" "real_dir ?fs1 = real_dir fs"
    using append_file_plain [OF assms(1) hp assms(3,5), of r] assms(4) unfolding hds by simp_all
  have fs2: "real_ok ?fs2" "real_content ?fs2 = (real_content fs)(ds @ [h] \<mapsto> r @ r)" "real_dir ?fs2 = real_dir fs"
    using append_file_plain [OF fs1(1) hp, of r] assms(3,5) fs1(2,3) unfolding hds by simp_all
  obtain fs3 where fs3: "c_remove ?fs2 (md_path_of ds h) = Some fs3" "real_ok fs3"
      "real_content fs3 = (real_content fs)(ds @ [h] := None)" "real_dir fs3 = real_dir fs"
    using c_remove_plain [OF fs2(1) hp] fs2(2,3) unfolding hds(6) by auto
  have "input_file ?fs2 (md_path_of ds h) = Some (r @ r)"
    using input_file_plain [OF fs2(1) hp] fs2(2,3) assms(5) unfolding hds(3) by simp
  moreover have "input_file fs3 (md_path_of ds h) = None"
    using input_file_plain [OF fs3(2) hp] fs3(3,4) assms(5) unfolding hds(3) by simp
  moreover have "real_content fs3 = real_content fs" using fs3(3) assms(4) by (auto simp: fun_eq_iff)
  ultimately show thesis using fs3(1) that by blast
qed

text \<open>Both threads append; the first reads and removes before the second reads.\<close>

lemma emits_collide:
  assumes "real_ok fs" and "list_all plain_name (ds @ [h])" and "real_dir fs ds"
    and "real_content fs (ds @ [h]) = None" and "\<not> real_dir fs (ds @ [h])"
  shows "\<exists>fs'. run_acts fs (replicate 2 (emit_program (md_path_of ds h) lines res)) [0, 1, 0, 0, 1] =
      (fs', [Return (True, html_answer (filter (\<lambda>c. c \<noteq> LF) (render_lines False lines @ render_lines False lines))),
        Return (False, cannot_open)]) \<and>
    real_content fs' = real_content fs"
proof -
  let ?hp = "md_path_of ds h" and ?r = "render_lines False lines"
  let ?fs2 = "append_file (append_file fs ?hp ?r) ?hp ?r"
  have emit: "act_step fs (emit_program ?hp lines res) = (append_file fs ?hp ?r, answer_program ?hp res)" for fs
    by (simp add: emit_program_def)
  obtain fs3 where fs3: "input_file ?fs2 ?hp = Some (?r @ ?r)" "c_remove ?fs2 ?hp = Some fs3" "input_file fs3 ?hp = None"
      "real_content fs3 = real_content fs"
    by (rule appended_twice [OF assms])
  obtain q where q: "act_step ?fs2 (answer_program ?hp res) = (?fs2, q)"
    "act_step ?fs2 q = (fs3, Return (True, html_answer (filter (\<lambda>c. c \<noteq> LF) (?r @ ?r))))"
    using answer_steps(2) [OF fs3(1,2), of res] by auto
  show ?thesis using fs3(4) by (simp add: numeral_2_eq_2 emit q answer_steps(1) [OF fs3(3)])
qed

text \<open>
  C20: Two clients of one document can be given it twice or not at all.  Two requests for the
  same Markdown file on two threads have a schedule in which both append their rendering to the
  same HTML file, the first answers 200 with the rendering twice over and removes the file, and
  the second answers 500 because it cannot open it any more.
\<close>

theorem markdown_race:
  assumes "real_ok fs" and "ds \<noteq> []" and "list_all plain_name (ds @ [f @ ''.md''])" and "plain_name (f @ ''.html'')"
    and "SLASH \<notin> set a" and "real_content fs (ds @ [f @ ''.md'']) = Some md"
    and "real_content fs (ds @ [f @ ''.html'']) = None" and "\<not> real_dir fs (ds @ [f @ ''.html''])"
    and "req_target req = SLASH # a @ SLASH # f @ ''.md''"
  shows "\<exists>p sched fs' html. markdown_program (slashed ds) req res = Inr p \<and>
    html = filter (\<lambda>c. c \<noteq> LF) (render_lines False (read_lines md)) \<and>
    run_act p fs = (fst (run_act p fs), True, html_answer html) \<and>
    run_acts fs [p, p] sched = (fs', [Return (True, html_answer (html @ html)), Return (False, cannot_open)]) \<and>
    real_content fs' = real_content fs"
proof -
  let ?r = "render_lines False (read_lines md)"
  let ?hp = "md_path_of ds (f @ ''.html'')" and ?p = "render_program (md_path_of ds (f @ ''.md'')) res"
  let ?html = "filter (\<lambda>c. c \<noteq> LF) ?r"
  have ds: "list_all plain_name ds" and hp: "list_all plain_name (ds @ [f @ ''.html''])" using assms(3,4) by simp_all
  have p: "markdown_program (slashed ds) req res = Inr ?p"
    using md_file_path_of [OF assms(2) ds assms(5)] by (simp add: markdown_program_def assms(9) slashed_def)
  obtain fs0 where "markdown_handle_request (slashed ds) fs req res = Inr (fs0, True, html_answer ?html)"
    using markdown_serves [OF assms(1-6,8,9), of res] by (auto simp: html_answer_def slashed_def)
  then have alone: "run_act ?p fs = (fst (run_act ?p fs), True, html_answer ?html)"
    using markdown_program_alone [of "slashed ds" req res fs] p by simp
  let ?e = "emit_program ?hp (read_lines md) res"
  have start: "run_acts fs [?p, ?p] ([0, 0, 0] @ [1, 1, 1]) = (fs, replicate 2 ?e)"
    using render_until_emit [OF assms(1,3,4,6,7,8), of 0 "[?p, ?p]" res]
      render_until_emit [OF assms(1,3,4,6,7,8), of 1 "[?e, ?p]" res]
    by (simp only: run_acts_append) (simp add: numeral_2_eq_2)
  have par: "real_dir fs ds" using real_parent_law [of fs ds "f @ ''.md''"] assms(6) by simp
  from emits_collide [OF assms(1) hp par assms(7,8), of "read_lines md" res] obtain fs' where
    fin: "run_acts fs (replicate 2 ?e) [0, 1, 0, 0, 1] =
      (fs', [Return (True, html_answer (?html @ ?html)), Return (False, cannot_open)])"
    and same: "real_content fs' = real_content fs" by auto
  have "run_acts fs [?p, ?p] (([0, 0, 0] @ [1, 1, 1]) @ [0, 1, 0, 0, 1]) =
      (fs', [Return (True, html_answer (?html @ ?html)), Return (False, cannot_open)])"
    using start fin by (simp only: run_acts_append prod.case)
  with p alone same show ?thesis by blast
qed

theorem markdown_race_witness:
  "\<exists>p sched fs' html. markdown_program (slashed [''docs''])
      \<lparr>req_method = verb_get, req_target = ''/md/a.md'', req_body = []\<rparr> empty_response = Inr p \<and>
    html = filter (\<lambda>c. c \<noteq> LF) (render_lines False (read_lines ''# hi'')) \<and>
    run_acts \<lparr>fs_root = Dir [(''docs'', Dir [(''a.md'', File ''# hi'')])], fs_cwd = []\<rparr> [p, p] sched =
      (fs', [Return (True, html_answer (html @ html)), Return (False, cannot_open)])"
proof -
  let ?fs = "\<lparr>fs_root = Dir [(''docs'', Dir [(''a.md'', File ''# hi'')])], fs_cwd = []\<rparr>"
  let ?req = "\<lparr>req_method = verb_get, req_target = ''/md/a.md'', req_body = []\<rparr>"
  have "real_ok ?fs" "[''docs''] \<noteq> []" "list_all plain_name ([''docs''] @ [''a'' @ ''.md''])" "plain_name (''a'' @ ''.html'')"
    "SLASH \<notin> set ''md''" "real_content ?fs ([''docs''] @ [''a'' @ ''.md'']) = Some ''# hi''"
    "real_content ?fs ([''docs''] @ [''a'' @ ''.html'']) = None" "\<not> real_dir ?fs ([''docs''] @ [''a'' @ ''.html''])"
    "req_target ?req = SLASH # ''md'' @ SLASH # ''a'' @ ''.md''"
    by code_simp+
  from markdown_race [OF this, of empty_response] show ?thesis by blast
qed

end
