(* ===== verification/Logging.thy ===== *)
theory Logging
  imports Session
begin

section \<open>The log\<close>

text \<open>
  The records the program writes: src/include/global.h, and the BOOST\_LOG statements of
  src/config\_parser.cc, src/server\_main.cc and src/session.cc.  A record is the text after the
  time stamp and the thread; a log is a list of records in the order they are written.  Each
  function follows the control flow of the code it logs for and stops where that code has no
  result.  The severity of a record repeats the name in its text.
\<close>

datatype LOG_MESSAGE_TYPE = TRACE | DEBUG | INFO | WARNING | ERROR | FATAL

fun LOG_MESSAGE_TYPES :: "LOG_MESSAGE_TYPE \<Rightarrow> string" where
  "LOG_MESSAGE_TYPES TRACE = ''(Trace)''"
| "LOG_MESSAGE_TYPES DEBUG = ''(Debug)''"
| "LOG_MESSAGE_TYPES INFO = ''(Info)''"
| "LOG_MESSAGE_TYPES WARNING = ''(Warning)''"
| "LOG_MESSAGE_TYPES ERROR = ''(Error)''"
| "LOG_MESSAGE_TYPES FATAL = ''(Fatal)''"

type_synonym log = "string list"

definition log_line :: "LOG_MESSAGE_TYPE \<Rightarrow> string \<Rightarrow> string" where
  "log_line ty text = LOG_MESSAGE_TYPES ty @ text"

subsection \<open>The parser\<close>

definition parsing_line :: "TokenType \<Rightarrow> string \<Rightarrow> string" where
  "parsing_line token_type token =
     log_line INFO (''Parsing '' @ TokenTypeAsString token_type @ '': '' @ c_string token)"

definition end_line :: string where
  "end_line = log_line INFO ([LF] @ ''----END OF CONFIG PARSING----'' @ [LF])"

definition error_line :: "TokenType \<Rightarrow> TokenType \<Rightarrow> string" where
  "error_line token_type last_type =
     log_line ERROR (''Error parsing config file: '' @ TokenTypeAsString token_type @ '' followed '' @
       TokenTypeAsString last_type)"

text \<open>The loop of \<open>Parse\<close>, with the same turns as \<open>Parse_loop\<close>.\<close>

function (sequential) Parse_loop_log :: "string \<Rightarrow> parse_state \<Rightarrow> log" where
  "Parse_loop_log input st =
     (case ParseToken input of
        (token_type, token, rest) \<Rightarrow>
          parsing_line token_type token #
          (case parse_step token_type token st of
             Inl e \<Rightarrow> []
           | Inr (Return b st') \<Rightarrow> [if b then end_line else error_line token_type (last_token_type st')]
           | Inr (Next st') \<Rightarrow> Parse_loop_log rest st'))"
  by pat_completeness auto
termination
  by (relation "measure (\<lambda>(input, st). length input)")
     (auto, metis ParseToken_shrinks parse_step_EOF)

declare Parse_loop_log.simps [simp del]

definition Parse_log :: "string \<Rightarrow> NginxConfig \<Rightarrow> log" where
  "Parse_log input c =
     log_line INFO (''[ConfigParsing]'' @ [LF] @ ''----BEGIN CONFIG PARSING----'' @ [LF]) # Parse_loop_log input (init_parse c)"

definition Parse_file_log :: "string \<Rightarrow> string option \<Rightarrow> NginxConfig \<Rightarrow> log" where
  "Parse_file_log file_name config_file cfg =
     (case config_file of
        None \<Rightarrow> [log_line ERROR (''Failed to open config file: '' @ file_name)]
      | Some contents \<Rightarrow> Parse_log contents cfg)"

subsection \<open>The getters\<close>

fun root_log :: "string \<Rightarrow> string list \<Rightarrow> log" where
  "root_log location [] = []"
| "root_log location (t # ts) =
     (if t = ''root'' then
        (case vec_at ts 0 of
           Inl e \<Rightarrow> []
         | Inr result_file_path \<Rightarrow>
             log_line INFO (''Static File: '' @ result_file_path) #
             log_line INFO (''Built URI: '' @ built_uri location result_file_path) # root_log location ts)
      else root_log location ts)"

fun static_file_log :: "NginxConfigStatement list \<Rightarrow> log" where
  "static_file_log [] = []"
| "static_file_log (s # ss) =
     (case is_location ''StaticHandler'' s of
        Inl e \<Rightarrow> []
      | Inr True \<Rightarrow>
          (case (block_statements s, vec_at (tokens s) 1) of
             (Inr block, Inr location) \<Rightarrow> concat (map (\<lambda>b. root_log location (tokens b)) block)
           | _ \<Rightarrow> [])
      | Inr False \<Rightarrow> static_file_log ss)"

definition get_static_file_path_log :: "NginxConfig \<Rightarrow> log" where
  "get_static_file_path_log c = log_line INFO ''Building list of static routes'' # static_file_log (statements c)"

fun crud_path_log :: "NginxConfigStatement list \<Rightarrow> log" where
  "crud_path_log [] = []"
| "crud_path_log (s # ss) =
     (case is_location ''CrudHandler'' s of
        Inl e \<Rightarrow> []
      | Inr True \<Rightarrow>
          (case vec_at (tokens s) 1 of
             Inl e \<Rightarrow> []
           | Inr path_str \<Rightarrow> log_line INFO (''Obtained CRUD path: '' @ path_str) # crud_path_log ss)
      | Inr False \<Rightarrow> crud_path_log ss)"

definition get_crud_path_log :: "NginxConfig \<Rightarrow> log" where
  "get_crud_path_log c = crud_path_log (statements c)"

fun args_block_log :: "NginxConfigStatement list \<Rightarrow> log" where
  "args_block_log [] = []"
| "args_block_log (s # ss) =
     (case vec_at (tokens s) 0 of
        Inl e \<Rightarrow> []
      | Inr t0 \<Rightarrow>
          if t0 \<noteq> [] then
            (case vec_at (tokens s) 1 of
               Inl e \<Rightarrow> []
             | Inr t1 \<Rightarrow> log_line INFO (''Obtained '' @ t0 @ '' arg: '' @ t1) # args_block_log ss)
          else args_block_log ss)"

fun args_log :: "string \<Rightarrow> NginxConfigStatement list \<Rightarrow> log" where
  "args_log handler [] = []"
| "args_log handler (s # ss) =
     (case is_location handler s of
        Inl e \<Rightarrow> []
      | Inr True \<Rightarrow>
          (case block_statements s of
             Inl e \<Rightarrow> []
           | Inr block \<Rightarrow> args_block_log block @ args_log handler ss)
      | Inr False \<Rightarrow> args_log handler ss)"

definition get_crud_args_log :: "NginxConfig \<Rightarrow> log" where
  "get_crud_args_log c = args_log ''CrudHandler'' (statements c)"

definition get_markdown_args_log :: "NginxConfig \<Rightarrow> log" where
  "get_markdown_args_log c = args_log ''MarkdownHandler'' (statements c)"

text \<open>\<open>configMap\<close> logs through its getters, first its own, then those of the two factories with arguments.\<close>

definition configMap_log :: "NginxConfig \<Rightarrow> log" where
  "configMap_log cfg = get_static_file_path_log cfg @ get_crud_path_log cfg @ get_crud_args_log cfg @ get_markdown_args_log cfg"

subsection \<open>Start-up\<close>

text \<open>\<open>main\<close> up to \<open>run_threads\<close>, and the handler of the signals.\<close>

definition main_log :: "int \<Rightarrow> string \<Rightarrow> string option \<Rightarrow> (int \<Rightarrow> bool) \<Rightarrow> log" where
  "main_log argc file_name config_file bind_ok =
     (if argc \<noteq> 2 then []
      else Parse_file_log file_name config_file (NginxConfig []) @
        (case Parse_file config_file (NginxConfig []) of
           Inl e \<Rightarrow> []
         | Inr (parsed_config, cfg) \<Rightarrow>
             if \<not> parsed_config then [log_line FATAL ''Invalid config file'']
             else log_line TRACE ''Successfully parsed config file'' #
               (case get_port_num cfg of
                  Inl e \<Rightarrow> []
                | Inr port_num \<Rightarrow>
                    if port_num = - 1 then [log_line FATAL ''Invalid port number in config file'']
                    else if \<not> bind_ok (listen_port port_num) then []
                    else configMap_log cfg @
                      (case configMap cfg of
                         Inl e \<Rightarrow> []
                       | Inr routes \<Rightarrow> [log_line TRACE (''Server running on port: '' @ to_string port_num)]))))"

definition signal_log :: "int \<Rightarrow> log" where
  "signal_log signum = [log_line FATAL (''Terminated program with signal: '' @ to_string signum)]"

subsection \<open>A read\<close>

definition request_metrics :: "request \<Rightarrow> string" where
  "request_metrics req =
     log_line INFO (''[RequestMetrics]'' @ [LF] @ ''----BEGIN REQUEST----'' @ [LF] @ request_info req @ ''----END REQUEST----'')"

definition not_found_line :: string where
  "not_found_line = log_line INFO ''404 NOT FOUND: A resource was requested that does not exist.''"

fun type_line :: "request_type \<Rightarrow> log" where
  "type_line type_echo = [log_line INFO ''Echo Request'']"
| "type_line type_static = [log_line INFO ''Static Request'']"
| "type_line type_crud = [log_line INFO ''CRUD Request'']"
| "type_line type_health = [log_line INFO ''Health Request'']"
| "type_line type_sleep = [log_line INFO ''Sleep Request'']"
| "type_line type_markdown = [log_line INFO ''Markdown Request'']"
| "type_line type_not_found = []"

definition get_request_type_log :: "NginxConfig \<Rightarrow> string \<Rightarrow> log" where
  "get_request_type_log cfg target =
     log_line INFO (''Requested URI is: '' @ target) #
     (case bind_res (get_echo_path cfg) (\<lambda>_. get_static_serving_path cfg) of Inl e \<Rightarrow> [] | Inr p \<Rightarrow> get_crud_path_log cfg) @
     (case get_request_type cfg target of Inl e \<Rightarrow> [] | Inr req_type \<Rightarrow> type_line req_type)"

fun status_line :: "request_type \<Rightarrow> string" where
  "status_line type_echo = log_line INFO ''200 OK: A good echo request has occurred.''"
| "status_line type_static = log_line INFO ''200 OK: A good static request has occurred.''"
| "status_line type_crud = log_line INFO ''200 OK: A good CRUD request has occurred.''"
| "status_line type_health = log_line INFO ''200 OK: A good health request has occurred.''"
| "status_line type_sleep = log_line INFO ''200 OK: A good sleep request has occurred.''"
| "status_line type_markdown = log_line INFO ''200 OK: A good markdown request has occurred.''"
| "status_line type_not_found = not_found_line"

fun handler_type :: "request_type \<Rightarrow> string" where
  "handler_type type_echo = ''Echo Handler''"
| "handler_type type_static = ''Static Handler''"
| "handler_type type_crud = ''CRUD Handler''"
| "handler_type type_health = ''Health Handler''"
| "handler_type type_sleep = ''Sleep Handler''"
| "handler_type type_markdown = ''Markdown Handler''"
| "handler_type type_not_found = ''404 Handler''"

text \<open>What a static or CRUD request logs while its factory is looked up.\<close>

fun factory_log :: "NginxConfig \<Rightarrow> request \<Rightarrow> request_type \<Rightarrow> log" where
  "factory_log cfg req type_static =
     get_static_file_path_log cfg @
     (case get_static_file_path cfg of
        Inl e \<Rightarrow> []
      | Inr paths \<Rightarrow> if map_of paths (uri req) = None then [not_found_line, request_metrics req] else [])"
| "factory_log cfg req type_crud = get_crud_path_log cfg"
| "factory_log cfg req _ = []"

definition good_log :: "NginxConfig \<Rightarrow> request \<Rightarrow> log" where
  "good_log cfg req =
     get_request_type_log cfg (uri req) @
     (case get_request_type cfg (uri req) of
        Inl e \<Rightarrow> []
      | Inr req_type \<Rightarrow> [status_line req_type, request_metrics req] @ factory_log cfg req req_type)"

definition verdict_log :: "NginxConfig \<Rightarrow> result_type \<Rightarrow> request \<Rightarrow> log" where
  "verdict_log cfg parse_status req =
     (if parse_status = good then good_log cfg req
      else if parse_status = bad then
        [log_line INFO (''400 BAD: A bad request has occurred.'' @ [LF]), request_metrics req]
      else [])"

definition verdict_handler_type :: "NginxConfig \<Rightarrow> result_type \<Rightarrow> string \<Rightarrow> string" where
  "verdict_handler_type cfg parse_status target =
     (if parse_status = good then case get_request_type cfg target of Inl e \<Rightarrow> [] | Inr req_type \<Rightarrow> handler_type req_type
      else if parse_status = bad then ''Bad Request Handler''
      else [])"

text \<open>The address of the peer, or \<open>None\<close> when \<open>remote_endpoint\<close> throws.\<close>

definition client_line :: "string option \<Rightarrow> string" where
  "client_line peer =
     (case peer of
        Some address \<Rightarrow> log_line INFO (''Incoming request from client with IP: '' @ address)
      | None \<Rightarrow> log_line INFO ''Incoming request from client with unknown IP'')"

definition response_metrics :: "nat \<Rightarrow> string \<Rightarrow> string option \<Rightarrow> string \<Rightarrow> string" where
  "response_metrics code target peer handler =
     log_line INFO (''[ResponseMetrics] Response Code: '' @ to_string (int code) @ '', Request Path: '' @ target @
       '', Request IP: '' @ (case peer of Some address \<Rightarrow> address | None \<Rightarrow> []) @ '', Request Handler: '' @ handler)"

definition handle_read_log ::
    "(string \<Rightarrow> verb) \<Rightarrow> session \<Rightarrow> world \<Rightarrow> bool \<Rightarrow> string \<Rightarrow> string option \<Rightarrow> log" where
  "handle_read_log to_verb s w error bytes peer =
     (if error then []
      else
        case parse (sess_parser s, sess_req s) bytes of
          Inl e \<Rightarrow> []
        | Inr (parse_status, (parser, req), rest) \<Rightarrow>
            client_line peer #
            (case buffer_string (bytes @ drop (length bytes) (sess_data s)) of
               Inl e \<Rightarrow> []
             | Inr body \<Rightarrow>
                 verdict_log (sess_config s) parse_status req @
                 (case handle_read to_verb s w error bytes of
                    Inr (result, Some s', w') \<Rightarrow>
                      [response_metrics (res_result (sess_response s')) (uri req) peer
                         (verdict_handler_type (sess_config s) parse_status (uri req))]
                  | _ \<Rightarrow> [])))"

subsection \<open>What the log tells of start-up\<close>

lemma log_line_simps [simp]:
  "starts_with (log_line ty p) (log_line ty q) = starts_with p q"
  "log_line ty p = log_line ty q \<longleftrightarrow> p = q"
  by (cases ty; simp add: log_line_def)+

text \<open>Of a finished \<open>Parse\<close>: one record for each token, then one that gives the outcome.\<close>

lemma Parse_loop_log_ends:
  "Parse_loop input st = Inr (b, c) \<Longrightarrow>
   \<exists>toks tt t lt. Parse_loop_log input st = map (\<lambda>(tt, t). parsing_line tt t) (toks @ [(tt, t)]) @
     [if b then end_line else error_line tt lt] \<and> (b \<longrightarrow> tt = TOKEN_TYPE_EOF)"
proof (induction input st rule: Parse_loop.induct)
  case (1 input st)
  obtain tt t rest where tok: "ParseToken input = (tt, t, rest)" by (metis prod.exhaust)
  show ?case
  proof (cases "parse_step tt t st")
    case (Inl e)
    with 1(2) tok show ?thesis by (simp add: Parse_loop.simps [of input])
  next
    case (Inr n)
    show ?thesis
    proof (cases n)
      case (Return b' st')
      then have "b' = b" using 1(2) tok Inr by (simp add: Parse_loop.simps [of input])
      moreover have "b' \<Longrightarrow> tt = TOKEN_TYPE_EOF" using Inr Return
        by (cases tt) (auto simp: parse_step_def normal_token_def start_block_def end_block_def Let_def bind_res_eq_Inr
            split: if_splits list.splits)
      ultimately show ?thesis using tok Inr Return
        by (intro exI [of _ "[]"] exI [of _ tt] exI [of _ t] exI [of _ "last_token_type st'"])
          (simp add: Parse_loop_log.simps [of input])
    next
      case (Next st')
      then have "Parse_loop rest st' = Inr (b, c)" using 1(2) tok Inr by (simp add: Parse_loop.simps [of input])
      from 1(1) [OF tok [symmetric] refl Inr Next this] obtain toks tt' t' lt where
        "Parse_loop_log rest st' = map (\<lambda>(tt, t). parsing_line tt t) (toks @ [(tt', t')]) @
          [if b then end_line else error_line tt' lt]" "b \<longrightarrow> tt' = TOKEN_TYPE_EOF" by blast
      then show ?thesis using tok Inr Next
        by (intro exI [of _ "(tt, t) # toks"] exI [of _ tt'] exI [of _ t'] exI [of _ lt])
          (simp add: Parse_loop_log.simps [of input])
    qed
  qed
qed

lemma Parse_log_not_empty: "Parse_file f cfg = Inr r \<Longrightarrow> Parse_file_log name f cfg \<noteq> []"
  by (auto simp: Parse_file_log_def Parse_log_def split: option.splits)

text \<open>
  C39: The log of start-up tells how \<open>main\<close> went.  When it serves, the last record is the port it
  serves; when it exits, it has written nothing for a wrong number of arguments (status 1), its last
  record is a fatal one exactly when the status is -1, and when the port cannot be bound
  (status 0) the log ends with the success of the parser, as no record says what went wrong.
\<close>

theorem main_log_tells_exit:
  assumes "main_start argc file bind_ok = Inr st"
  shows "case st of
      Serving port cfg routes \<Rightarrow>
        last (main_log argc name file bind_ok) = log_line TRACE (''Server running on port: '' @ to_string port)
    | Exit n \<Rightarrow>
        (n = 1 \<longleftrightarrow> main_log argc name file bind_ok = []) \<and>
        (n = - 1 \<longleftrightarrow> main_log argc name file bind_ok \<noteq> [] \<and> starts_with ''(Fatal)'' (last (main_log argc name file bind_ok))) \<and>
        (n = 0 \<longleftrightarrow> main_log argc name file bind_ok \<noteq> [] \<and>
          last (main_log argc name file bind_ok) = log_line TRACE ''Successfully parsed config file'')"
proof (cases "argc = 2")
  case True
  with assms obtain b cfg where p: "Parse_file file (NginxConfig []) = Inr (b, cfg)"
    by (auto simp: main_start_def bind_res_eq_Inr)
  show ?thesis
  proof (cases b)
    case b: True
    with assms True p obtain port where port: "get_port_num cfg = Inr port" by (auto simp: main_start_def bind_res_eq_Inr)
    then have "listen_port port = port" if "port \<noteq> - 1"
      using port_num_range [OF port] that by (simp add: listen_port_def uint_word_of_int)
    then show ?thesis using assms True p b port
      by (cases "port = - 1"; cases "bind_ok port")
        (auto simp: main_start_def main_log_def log_line_def bind_res_eq_Inr)
  qed (use assms True p in \<open>auto simp: main_start_def main_log_def log_line_def\<close>)
qed (use assms in \<open>auto simp: main_start_def main_log_def\<close>)

theorem main_log_tells_exit_witness:
  "main_start 2 None (\<lambda>_. True) = Inr (Exit (- 1)) \<and> starts_with ''(Fatal)'' (last (main_log 2 ''conf'' None (\<lambda>_. True)))"
proof -
  have "main_start 2 None (\<lambda>_. True) = Inr (Exit (- 1))" by (simp add: main_start_def Parse_file_def)
  from this main_log_tells_exit [OF this, of "''conf''"] show ?thesis by simp
qed

subsection \<open>What the log tells of a read\<close>

text \<open>The records whose text starts with \<open>p\<close>.\<close>

definition records_of :: "string \<Rightarrow> log \<Rightarrow> log" where
  "records_of p l = filter (starts_with (log_line INFO p)) l"

lemma records_of_simps [simp]:
  "records_of p [] = []" "records_of p (xs @ ys) = records_of p xs @ records_of p ys"
  "records_of p (log_line INFO q # xs) = (if starts_with p q then [log_line INFO q] else []) @ records_of p xs"
  by (simp_all add: records_of_def)

lemma crud_path_log_kinds [simp]:
  "records_of (CHR ''['' # p) (crud_path_log ss) = []"
  by (induction ss) (auto simp: log_line_def records_of_def split: sum.split bool.split)

lemma root_log_kinds [simp]: "records_of (CHR ''['' # p) (root_log location ts) = []"
  by (induction ts) (auto simp: log_line_def records_of_def split: sum.split)

lemma root_logs_kinds [simp]: "records_of (CHR ''['' # p) (concat (map (\<lambda>b. root_log location (tokens b)) bs)) = []"
  by (induction bs) simp_all

lemma static_file_log_kinds [simp]: "records_of (CHR ''['' # p) (static_file_log ss) = []"
  by (induction ss) (auto split: sum.split bool.split)

lemma type_kinds [simp]:
  "records_of (CHR ''['' # p) (type_line ty) = []"
  "records_of (CHR ''['' # p) (status_line ty # l) = records_of (CHR ''['' # p) l"
  "records_of (CHR ''['' # p) (not_found_line # l) = records_of (CHR ''['' # p) l"
  by (cases ty; simp add: not_found_line_def)+

lemma log_kinds [simp]:
  "records_of (CHR ''['' # p) (get_crud_path_log cfg) = []"
  "records_of (CHR ''['' # p) (get_static_file_path_log cfg) = []"
  "records_of (CHR ''['' # p) (get_request_type_log cfg target) = []"
  "records_of (CHR ''['' # p) (client_line peer # l) = records_of (CHR ''['' # p) l"
  by (auto simp: get_crud_path_log_def get_static_file_path_log_def get_request_type_log_def client_line_def
      split: sum.split option.split)

lemma metrics_kinds [simp]:
  "records_of ''[ResponseMetrics]'' (request_metrics req # l) = records_of ''[ResponseMetrics]'' l"
  "records_of ''[RequestMetrics]'' (request_metrics req # l) = request_metrics req # records_of ''[RequestMetrics]'' l"
  "records_of ''[ResponseMetrics]'' (response_metrics code target peer h # l) =
     response_metrics code target peer h # records_of ''[ResponseMetrics]'' l"
  "records_of ''[RequestMetrics]'' (response_metrics code target peer h # l) = records_of ''[RequestMetrics]'' l"
  by (simp_all add: request_metrics_def response_metrics_def)

text \<open>A good static request whose URI is not served is logged twice, as found and as not found.\<close>

definition times_logged :: "NginxConfig \<Rightarrow> result_type \<Rightarrow> string \<Rightarrow> nat" where
  "times_logged cfg parse_status target =
     (if parse_status = indeterminate then 0
      else if parse_status = good \<and> get_request_type cfg target = Inr type_static \<and>
         (case get_static_file_path cfg of Inl e \<Rightarrow> False | Inr paths \<Rightarrow> map_of paths target = None) then 2
      else 1)"

lemma factory_log_kinds [simp]:
  "records_of ''[ResponseMetrics]'' (factory_log cfg req ty) = []"
  "records_of ''[RequestMetrics]'' (factory_log cfg req ty) =
     (if ty = type_static \<and> (case get_static_file_path cfg of Inl e \<Rightarrow> False | Inr paths \<Rightarrow> map_of paths (uri req) = None)
      then [request_metrics req] else [])"
  by (cases ty; simp split: sum.split)+

lemma verdict_log_kinds:
  assumes "v = good \<Longrightarrow> \<exists>ty. get_request_type cfg (uri req) = Inr ty"
  shows "records_of ''[ResponseMetrics]'' (verdict_log cfg v req) = []"
    "records_of ''[RequestMetrics]'' (verdict_log cfg v req) = replicate (times_logged cfg v (uri req)) (request_metrics req)"
proof -
  show "records_of ''[ResponseMetrics]'' (verdict_log cfg v req) = []"
    using assms by (cases v) (auto simp: verdict_log_def good_log_def)
  show "records_of ''[RequestMetrics]'' (verdict_log cfg v req) = replicate (times_logged cfg v (uri req)) (request_metrics req)"
    using assms by (cases v) (auto simp: verdict_log_def good_log_def times_logged_def numeral_2_eq_2 simp del: factory_log.simps)
qed

lemma handle_read_verdict:
  assumes "handle_read to_verb s w False bytes = Inr (result, Some s', w')"
    and "parse (sess_parser s, sess_req s) bytes = Inr (v, (p', req), rest)"
  shows "\<exists>body. buffer_string (bytes @ drop (length bytes) (sess_data s)) = Inr body"
    and "v = good \<Longrightarrow> \<exists>ty. get_request_type (sess_config s) (uri req) = Inr ty"
  using assms by (auto simp: handle_read_def Let_def bind_res_eq_Inr good_factory_def)

text \<open>
  C22: Every answer is logged once.  The log of a read that is answered ends with the one record of
  response metrics: the code of the response that is written, the URI the parser read, the
  address of the peer and the name of the handler.  The request itself is logged once, with the
  exceptions of a request that is not complete, which is not logged, and of a URI below the
  static location that is not served, which is logged twice, first as a 200.
\<close>

theorem read_is_logged:
  assumes "handle_read to_verb s w False bytes = Inr (result, Some s', w')"
    and "parse (sess_parser s, sess_req s) bytes = Inr (v, (p', req), rest)"
  shows "records_of ''[ResponseMetrics]'' (handle_read_log to_verb s w False bytes peer) =
      [response_metrics (res_result (sess_response s')) (uri req) peer (verdict_handler_type (sess_config s) v (uri req))] \<and>
    last (handle_read_log to_verb s w False bytes peer) =
      response_metrics (res_result (sess_response s')) (uri req) peer (verdict_handler_type (sess_config s) v (uri req)) \<and>
    records_of ''[RequestMetrics]'' (handle_read_log to_verb s w False bytes peer) =
      replicate (times_logged (sess_config s) v (uri req)) (request_metrics req)"
proof -
  obtain body where body: "buffer_string (bytes @ drop (length bytes) (sess_data s)) = Inr body"
    using handle_read_verdict(1) [OF assms] by blast
  let ?r = "response_metrics (res_result (sess_response s')) (uri req) peer (verdict_handler_type (sess_config s) v (uri req))"
  have log: "handle_read_log to_verb s w False bytes peer = client_line peer # verdict_log (sess_config s) v req @ [?r]"
    using assms body by (simp add: handle_read_log_def)
  show ?thesis unfolding log using handle_read_verdict(2) [OF assms] by (simp add: verdict_log_kinds)
qed

theorem read_is_logged_witness:
  "\<exists>s'. handle_read (\<lambda>_. verb_get) (new_session two_crud_config sample_routes (filled (replicate 1024 NUL)))
      sample_world False '' GET'' = Inr (1, Some s', sample_world) \<and>
    records_of ''[ResponseMetrics]'' (handle_read_log (\<lambda>_. verb_get)
      (new_session two_crud_config sample_routes (filled (replicate 1024 NUL))) sample_world False '' GET'' (Some ''10.0.0.1'')) =
      [''(Info)[ResponseMetrics] Response Code: 400, Request Path: , Request IP: 10.0.0.1, Request Handler: Bad Request Handler'']"
proof -
  let ?s = "new_session two_crud_config sample_routes (filled (replicate 1024 NUL))"
  have parse: "parse (sess_parser ?s, sess_req ?s) '' GET'' = Inr (bad, (S_method_start, empty_request), ''GET'')" by simp
  obtain s' where s': "handle_read (\<lambda>_. verb_get) ?s sample_world False '' GET'' = Inr (1, Some s', sample_world)"
    "sess_response s' = bad_response"
    using handle_read_bad [OF parse, of "[]"] by (auto simp: sample_routes_def)
  have "response_metrics 400 [] (Some ''10.0.0.1'') ''Bad Request Handler'' =
    ''(Info)[ResponseMetrics] Response Code: 400, Request Path: , Request IP: 10.0.0.1, Request Handler: Bad Request Handler''"
    by code_simp
  then have "response_metrics (res_result (sess_response s')) (uri empty_request) (Some ''10.0.0.1'')
      (verdict_handler_type (sess_config ?s) bad (uri empty_request)) =
    ''(Info)[ResponseMetrics] Response Code: 400, Request Path: , Request IP: 10.0.0.1, Request Handler: Bad Request Handler''"
    by (simp add: s'(2) bad_response_def empty_request_def verdict_handler_type_def)
  with read_is_logged [OF s'(1) parse, of "Some ''10.0.0.1''"] s'(1) show ?thesis by metis
qed

text \<open>
  C29: A client cannot forge lines of the log.  Whatever a client sends on a fresh session, each record
  its read writes is one line, except for the record of the request, which has exactly its two
  frame lines, three lines for method, URI and version and three for each header, the fixed text
  of a rejected request, which ends in a line feed, and what the getters repeat of the
  configuration.  The record of the request holds no carriage return either.
\<close>

theorem log_cannot_be_forged:
  assumes "parse (sess_parser s, sess_req s) bytes = Inr (v, (p', req), rest)"
    and "sess_parser s = S_method_start" and "fresh (sess_req s)" and "\<And>a. peer = Some a \<Longrightarrow> LF \<notin> set a"
    and "l \<in> set (handle_read_log to_verb s w error bytes peer)"
  shows "LF \<notin> set l \<or> l = log_line INFO (''400 BAD: A bad request has occurred.'' @ [LF]) \<or>
    l \<in> set (get_crud_path_log (sess_config s)) \<union> set (get_static_file_path_log (sess_config s)) \<or>
    l = request_metrics req \<and> count_list l LF = 5 + 3 * length (headers req) \<and> CR \<notin> set l"
proof -
  have req: "count_list (request_info req) LF = 3 + 3 * length (headers req)" "CR \<notin> set (request_info req)"
    "LF \<notin> set (uri req)"
    using request_info_lines [of "sess_req s" bytes v p' req rest] assms(1-3) by simp_all
  have metrics: "count_list (request_metrics req) LF = 5 + 3 * length (headers req) \<and> CR \<notin> set (request_metrics req)"
    using req(1,2) by (simp add: request_metrics_def log_line_def)
  have types: "LF \<notin> set (handler_type ty)" "LF \<notin> set (status_line ty)" "\<forall>x \<in> set (type_line ty). LF \<notin> set x" for ty
    by (cases ty; simp add: log_line_def not_found_line_def)+
  have handler: "LF \<notin> set (verdict_handler_type cfg v t)" for cfg t
    using types(1) by (auto simp: verdict_handler_type_def split: sum.split)
  have fixed: "LF \<notin> set not_found_line" by (simp add: not_found_line_def log_line_def)
  let ?cfg = "sess_config s" and ?bad = "log_line INFO (''400 BAD: A bad request has occurred.'' @ [LF])"
  have uri: "LF \<notin> set (log_line INFO (''Requested URI is: '' @ uri req))" using req(3) by (simp add: log_line_def)
  have type: "set (get_request_type_log ?cfg (uri req)) \<subseteq> {x. LF \<notin> set x} \<union> set (get_crud_path_log ?cfg)"
    unfolding get_request_type_log_def using uri types(3) by (auto split: sum.split)
  have "set (factory_log ?cfg req ty) \<subseteq>
      {x. LF \<notin> set x} \<union> set (get_crud_path_log ?cfg) \<union> set (get_static_file_path_log ?cfg) \<union> {request_metrics req}" for ty
    using fixed by (cases ty) (auto split: sum.split)
  with type types(2) have "set (good_log ?cfg req) \<subseteq>
      {x. LF \<notin> set x} \<union> set (get_crud_path_log ?cfg) \<union> set (get_static_file_path_log ?cfg) \<union> {request_metrics req}"
    unfolding good_log_def by (cases "get_request_type ?cfg (uri req)"; simp) blast+
  then have verdict: "set (verdict_log ?cfg v req) \<subseteq>
      {x. LF \<notin> set x} \<union> {?bad} \<union> set (get_crud_path_log ?cfg) \<union> set (get_static_file_path_log ?cfg) \<union> {request_metrics req}"
    unfolding verdict_log_def by (cases v) auto
  have ends: "LF \<notin> set (client_line peer)" "LF \<notin> set (response_metrics code (uri req) peer (verdict_handler_type cfg v t))" for code cfg t
    using assms(4) req(3) handler by (auto simp: client_line_def response_metrics_def log_line_def split: option.split)
  let ?answer = "case handle_read to_verb s w error bytes of
      Inr (result, Some s', w') \<Rightarrow> [response_metrics (res_result (sess_response s')) (uri req) peer
        (verdict_handler_type (sess_config s) v (uri req))] | _ \<Rightarrow> []"
  have "set ?answer \<subseteq> {response_metrics code (uri req) peer (verdict_handler_type (sess_config s) v (uri req)) | code. True}"
    by (auto split: sum.split prod.split option.split)
  moreover have "l = client_line peer \<or> l \<in> set (verdict_log (sess_config s) v req) \<or> l \<in> set ?answer"
    using assms(5) unfolding handle_read_log_def assms(1) by (simp split: if_splits sum.splits) blast
  ultimately show ?thesis using verdict ends metrics by blast
qed

theorem log_cannot_be_forged_witness:
  "\<exists>req. request_metrics req \<in> set (handle_read_log (\<lambda>_. verb_get)
      (new_session two_crud_config sample_routes (filled (replicate 1024 NUL))) sample_world
      False (''GET /a'' @ [LF] @ ''(Info)forged'') (Some ''10.0.0.1'')) \<and>
    count_list (request_metrics req) LF = 5 \<and> CR \<notin> set (request_metrics req)"
proof -
  let ?s = "new_session two_crud_config sample_routes (filled (replicate 1024 NUL))" and ?b = "''GET /a'' @ [LF] @ ''(Info)forged''"
  let ?req = "\<lparr>meth = ''GET'', uri = ''/a'', http_version_major = 0, http_version_minor = 0, headers = []\<rparr>"
  have "parse (S_method_start, empty_request) ?b = Inr (bad, (S_uri, ?req), ''(Info)forged'')" by code_simp
  then have parse: "parse (sess_parser ?s, sess_req ?s) ?b = Inr (bad, (S_uri, ?req), ''(Info)forged'')" by simp
  have "NUL \<in> set (?b @ drop (length ?b) (sess_data ?s))" by simp
  then have l: "request_metrics ?req \<in> set (handle_read_log (\<lambda>_. verb_get) ?s sample_world False ?b (Some ''10.0.0.1''))"
    unfolding handle_read_log_def parse by (simp add: buffer_string_def verdict_log_def)
  have "request_metrics ?req \<in> set (records_of ''[RequestMetrics]'' xs)" if "request_metrics ?req \<in> set xs" for xs
    using that by (simp add: records_of_def request_metrics_def)
  then have "request_metrics ?req \<notin> set (get_crud_path_log two_crud_config) \<union> set (get_static_file_path_log two_crud_config)"
    by fastforce
  moreover have "LF \<in> set (request_metrics ?req)" by (simp add: request_metrics_def log_line_def)
  moreover have "request_metrics ?req \<noteq> log_line INFO (''400 BAD: A bad request has occurred.'' @ [LF])"
    by (simp add: request_metrics_def)
  moreover have "LF \<notin> set ''10.0.0.1''" by simp
  ultimately have "count_list (request_metrics ?req) LF = 5 \<and> CR \<notin> set (request_metrics ?req)"
    using log_cannot_be_forged [OF parse _ _ _ l] by auto
  with l show ?thesis by blast
qed

end
