(* ===== verification/Spec2Isabelle.thy ===== *)
theory Spec2Isabelle
  imports Prelude Config_Ast Config_Lexer Config_Parser Config_Query Request_Parser Reply Filesystem
    Mock_Filesystem Handlers Crud_Handler Markdown_Handler Server Session Connections Process Service Crud_Service Interleaved_Service
    Concurrency Disjoint_Requests Torn_Reads Markdown_Threads Logging
begin

text \<open>
  A model of the bingsoo web server (C++ on Boost.Asio) with the theorems that make it correct.

  The program.  \<open>main\<close> (src/server\_main.cc) parses a configuration file in the syntax of nginx
  (src/config\_parser.cc) and builds a \<open>server\<close> (src/server.cc), which makes a handler factory
  for every configured path and accepts connections.  Each connection is a \<open>session\<close>
  (src/session.cc): it reads up to 1024 bytes, runs the request parser over them
  (src/request\_parser.cc), picks a factory by the URI, and lets the handler it creates fill a
  response (src/*\_request\_handler.cc), which it writes before it reads again.  The handlers
  that keep state do so in files, through \<open>filesystem_interface\<close>.

  The theories, in the order of their imports.
    \<^item> Prelude: results that may fail, vectors, \<open>int\<close>, \<open>char\<close> and the operations of
      \<open>std::string\<close>, \<open>std::to_string\<close>, \<open>std::stoi\<close> and \<open>atoi\<close> with their lemmas.
    \<^item> Config\_Ast: \<open>NginxConfig\<close> and \<open>NginxConfigStatement\<close> with \<open>ToString\<close>; pointers into the
      tree are lists of positions (\<open>config_ptr\<close>).
    \<^item> Config\_Lexer: \<open>ParseToken\<close> as a function of the rest of the stream.
    \<^item> Config\_Parser: the loop of \<open>Parse\<close> over the record of its local variables; the
      reachability of its states with the invariant of stack and counters, the normal form of
      what it accepts and the round trip with \<open>ToString\<close>.
    \<^item> Config\_Query: the getters of \<open>NginxConfig\<close>, and what they find.
    \<^item> Request\_Parser: \<open>request_parser::consume\<close> and \<open>parse\<close>; the locale \<open>byte_consumer\<close> holds what
      is true of any automaton that eats bytes until a verdict (appending inputs, invariants over
      the bytes read) and is interpreted on \<open>consume\<close>.
    \<^item> Reply: \<open>reply::to_buffers\<close> and the stock replies.
    \<^item> Filesystem: the interface, the locale \<open>filesystem_contract\<close> with what a client may rely on,
      and the real file system on a tree with POSIX path resolution, which interprets it.
    \<^item> Mock\_Filesystem: the test double on a property tree that is a parameter.
    \<^item> Handlers: echo, health, sleep, 404, bad-request and static handlers; the locale
      \<open>response_filler\<close> is the contract of the handlers that need no store, interpreted on all six.
    \<^item> Crud\_Handler: the CRUD handler over any \<open>filesystem_interface\<close>; the abstract resource store
      (\<open>rest_step\<close>, a map from numbers to contents) and the refinement, proved inside
      \<open>filesystem_contract\<close>.
    \<^item> Markdown\_Handler: the rendering, with the inline loops, and the temporary file.
    \<^item> Server: factories, \<open>createHandlerFactory\<close>, \<open>configMap\<close>, and \<open>main\<close> up to serving.
    \<^item> Session: \<open>get_request_type\<close>, \<open>handle_read\<close> and \<open>handle_write\<close> on the record of the members.
    \<^item> Connections: the asynchronous operations as events, one connection and the whole server as
      step relations with their reachable states.
    \<^item> Process: \<open>main\<close>, the signal handler and the threads' loop: how the process starts and ends,
      with what can throw (\<open>never_throws\<close>) and what becomes of an exception.
    \<^item> Service: clients that connect one after the other, and that each of them is answered.
    \<^item> Crud\_Service: the running server against the resource store, from the bytes on the sockets
      to the responses and the files, one client after the other.
    \<^item> Interleaved\_Service: the same for clients that connect, send, take their responses and break
      off in any order: the running server simulates an abstract service (\<open>service_step\<close>), a store
      with the answers it owes, and every answer is the client's own.
    \<^item> Concurrency: a CRUD handler as the program of its file system calls, and the schedules of
      several of them on the threads of \<open>run_threads\<close>, two on one collection; Disjoint\_Requests: any
      number of them on collections of their own, a write being two steps; Torn\_Reads: a file that is read while it is
      written; Markdown\_Threads: the same for the accesses of the Markdown handler to its files.
    \<^item> Logging: the records of every log statement, of the parser, the getters, \<open>main\<close> and a read.
    \<^item> This theory: properties of all of them together, from a configured file or a Markdown file
      to the response on a connection.

  What is shown.  Configuration: the tokenizer accepts exactly the words its grammar describes,
  printing and parsing is the identity, what is accepted is well formed, stack and counters
  agree, and the steps that are undefined in C++ are exactly those listed; the getters find
  what they document; the routes are computed in closed form.  Requests: the parser inverts
  printing, a good verdict fixes the bytes read, splitting the input does not matter, and the
  only failure is the overflow of a version number.  Files: writing, reading, deleting and listing do what the contract says, and the read loop is the identity.  Handlers: the CRUD
  handler refines a resource store for every sequence of requests, failures leave the files
  alone, the Markdown handler answers with the rendering and leaves no temporary file.
  Sessions and server: no read of a reachable server meets a null handler, every connection
  answers at most once and ends, the listening port is the configured one, clients that overlap in
  any way get what the resource store prescribes, each its own answers, and the process ends only by its
  exit statuses, a signal, or a CRUD request that throws.  Log: every answer has its one record, no
  request can forge lines, and the log of start-up tells how it ended.  Threads: reads never interfere,
  requests for different collections do not either, whatever their verbs.  Several properties state what the code
  does against its intent: stale bytes in the buffer, paths through \<open>..\<close>, lengths that are not
  those of the body, the end of accepting after one failed accept, two creations with the same
  number, a read of a file half written, a document rendered twice, one DELETE that ends the server.

  Conventions and bounds.  A step that is undefined in C++ or throws is a value \<open>Inl\<close> of
  \<open>failure\<close>, so a theorem that a definition gives \<open>Inr\<close> also says that the code gets there.
  All loops are total functions with proved measures, so no fuel is used: the tokenizer loops
  shorten the input, \<open>Parse\<close> stops at the end of the file, the inline loops of the Markdown handler lose
  two markers at each turn, the search for a free number stops at the latest at the overflow of
  the \<open>int\<close>.  \<open>int\<close> is a HOL \<open>int\<close> with the overflow written out (\<open>chk_int\<close>), the port goes
  through a 16-bit word, \<open>size_t\<close> positions are naturals with \<open>npos\<close> as \<open>None\<close> and its
  wrap-around in \<open>pos_plus\<close>; \<open>char\<close> is signed.  An \<open>unordered_map\<close> is an association list or a
  partial map, as no property depends on the order of its iteration.

  What the memory of a session held before its first read is an argument (\<open>memory\<close>: the buffer
  and the version numbers, which no constructor writes).

  Not modelled.  The sinks of the log; the text form of the response, which Boost.Beast writes; symbolic
  links, permissions, limits on names and exhaustion in the file system; NUL bytes in a path, which
  the C library would end there (no URI that parses holds one).  Completion handlers
  run one at a time in Connections, Process, Service, Crud\_Service and Interleaved\_Service; their overlap on the five
  threads is modelled for the file system calls of CRUD handlers and the file accesses of
  Markdown handlers, each one atomic step, a write also as the two steps in which the file is
  truncated and filled; two writers of one file are not modelled below that.  Of the
  libraries, \<open>string_to_verb\<close> of Boost.Beast and the property tree are parameters, and what a
  socket reports is an event.
\<close>

section \<open>From the socket to the files\<close>

text \<open>A good request on a connection that has not been read yet is answered by the handler of its factory.\<close>

lemma running_read:
  assumes "server_reaches to_verb cfg srv" and "Some c \<in> set (srv_conns srv)"
    and "conn_pending c = Reading" and "\<not> conn_shut c"
    and "wf_request r" and "NUL \<in> set (drop (length (print_request r @ rest)) (sess_data (conn_session c)))"
    and fac: "\<And>routes. configMap cfg = Inr routes \<Longrightarrow>
      good_factory cfg routes (uri r) (fall_back routes (routes (uri r))) = Inr (Some f)"
    and hdl: "\<And>body res. buffer_string ((print_request r @ rest) @ drop (length (print_request r @ rest)) (sess_data (conn_session c))) = Inr body \<Longrightarrow>
      \<exists>w' st res'. handle_request (create f) w
        \<lparr>req_method = to_verb (meth r), req_target = uri r, req_body = body\<rparr> res = Inr (w', st, res') \<and> Q w' res'"
  shows "\<exists>c' w'. read_done to_verb c w False (print_request r @ rest) = Inr (Some c', w') \<and> conn_pending c' = Writing \<and>
    Q w' (sess_response (conn_session c'))"
proof -
  let ?s = "conn_session c" and ?bytes = "print_request r @ rest"
  obtain i where i: "i < length (srv_conns srv)" "srv_conns srv ! i = Some c" using assms(2) by (auto simp: in_set_conv_nth)
  obtain routes where s: "configMap cfg = Inr routes" "sess_config ?s = cfg" "sess_routes ?s = routes"
    and parse: "parse (sess_parser ?s, sess_req ?s) ?bytes = Inr (good, (S_expecting_newline_3, r), rest)"
    using running_connection [OF assms(1) i assms(3-5)] by blast
  obtain body where buf: "buffer_string (?bytes @ drop (length ?bytes) (sess_data ?s)) = Inr body"
    using assms(6) by (auto simp: buffer_string_def)
  have fac': "(if good = good then good_factory (sess_config ?s) (sess_routes ?s) (uri r)
        (fall_back (sess_routes ?s) (sess_routes ?s (uri r)))
      else Inr (fall_back (sess_routes ?s) (if good = bad then sess_routes ?s ''bad'' else sess_routes ?s (uri r)))) =
      Inr (Some f)"
    using s fac [OF s(1)] by simp
  obtain w' st res' where h: "handle_request (create f) w
      \<lparr>req_method = to_verb (meth r), req_target = uri r, req_body = body\<rparr> (sess_response ?s) = Inr (w', st, res')" "Q w' res'"
    using hdl [OF buf] by blast
  from handle_read_step [where to_verb = to_verb, OF parse buf fac' h(1)] h(2) show ?thesis
    by (auto simp: read_done_def)
qed

text \<open>
  C6: A configured file is served.  On any connection of a running server that has not been read
  yet, a well-formed request for a URI of the static map, typed static, is answered with 200,
  the bytes of the file the configuration names, their length and the type of its extension;
  the handler leaves the world as it was, and the response is the next write of the connection.
\<close>

theorem static_file_is_served:
  assumes "server_reaches to_verb cfg srv" and "Some c \<in> set (srv_conns srv)"
    and "conn_pending c = Reading" and "\<not> conn_shut c"
    and "wf_request r" and "NUL \<in> set (drop (length (print_request r @ rest)) (sess_data (conn_session c)))"
    and "get_request_type cfg (uri r) = Inr type_static" and "get_static_file_path cfg = Inr m"
    and "map_of m (uri r) = Some (stem @ ''.'' @ ext)" and "CHR ''.'' \<notin> set ext"
    and "input_file (world_fs w) (stem @ ''.'' @ ext) = Some s"
  shows "\<exists>c'. read_done to_verb c w False (print_request r @ rest) = Inr (Some c', w) \<and> conn_pending c' = Writing \<and>
    sess_response (conn_session c') = \<lparr>res_body = s, res_result = 200, res_content_length = Some (length s),
      res_content_type = Some (extension_type_map (''.'' @ ext))\<rparr>"
proof -
  let ?answer = "\<lparr>res_body = s, res_result = 200, res_content_length = Some (length s),
      res_content_type = Some (extension_type_map (''.'' @ ext))\<rparr>"
  have fac: "good_factory cfg routes (uri r) g = Inr (Some (StaticHandlerFactory (stem @ ''.'' @ ext)))" for routes g
    using assms(7-9) by (simp add: good_factory_def)
  have hdl: "\<exists>w' st res'. handle_request (create (StaticHandlerFactory (stem @ ''.'' @ ext))) w
      \<lparr>req_method = to_verb (meth r), req_target = uri r, req_body = body\<rparr> res = Inr (w', st, res') \<and>
      w' = w \<and> res' = ?answer" for body res
    using static_serves_file [OF assms(11,10)] by (intro exI [of _ w] exI [of _ True] exI [of _ ?answer]) simp
  from running_read [where Q = "\<lambda>w' res'. w' = w \<and> res' = ?answer", OF assms(1-6) fac hdl] show ?thesis by auto
qed

definition index_request :: request where
  "index_request = \<lparr>meth = ''GET'', uri = ''/static/index.html'', http_version_major = 1, http_version_minor = 1,
     headers = []\<rparr>"

definition index_world :: world where
  "index_world = \<lparr>world_fs = \<lparr>fs_root = Dir [(''static'', Dir [(''index.html'', File ''<p>'')])], fs_cwd = []\<rparr>,
     world_clock = 0\<rparr>"

lemma index_facts:
  "wf_request index_request" "length (print_request index_request) = 35"
  "get_request_type two_crud_config (uri index_request) = Inr type_static"
  "get_static_file_path two_crud_config =
     Inr [(''/static/index.html'', ''static/index'' @ ''.'' @ ''html''), (''/static/top.html'', ''top.html'')]"
  "map_of [(''/static/index.html'', ''static/index'' @ ''.'' @ ''html''), (''/static/top.html'', ''top.html'')]
     (uri index_request) = Some (''static/index'' @ ''.'' @ ''html'')"
  "input_file (world_fs index_world) (''static/index'' @ ''.'' @ ''html'') = Some ''<p>''"
  "extension_type_map (''.'' @ ''html'') = ''text/html''"
  by code_simp+

theorem static_file_is_served_witness:
  "\<exists>routes c'. configMap two_crud_config = Inr routes \<and>
    read_done (\<lambda>_. verb_get) (start (new_session two_crud_config routes (filled (replicate 1024 NUL)))) index_world False
      (print_request index_request @ []) = Inr (Some c', index_world) \<and>
    sess_response (conn_session c') =
      \<lparr>res_body = ''<p>'', res_result = 200, res_content_length = Some (length ''<p>''), res_content_type = Some ''text/html''\<rparr>"
proof -
  obtain routes where r: "configMap two_crud_config = Inr routes"
    "server_reaches (\<lambda>_. verb_get) two_crud_config (sample_server routes)"
    using sample_server_reaches by blast
  let ?c = "start (new_session two_crud_config routes (filled (replicate 1024 NUL)))"
  have c: "Some ?c \<in> set (srv_conns (sample_server routes))" "conn_pending ?c = Reading" "\<not> conn_shut ?c"
    "NUL \<in> set (drop (length (print_request index_request @ [])) (sess_data (conn_session ?c)))"
    by (simp_all add: sample_server_def one_client_def start_def Let_def index_facts(2))
  show ?thesis
    using static_file_is_served [OF r(2) c(1-3) index_facts(1) c(4) index_facts(3-5) _ index_facts(6)] r(1)
    unfolding index_facts(7) by auto
qed

lemma print_request_nul: "wf_request r \<Longrightarrow> NUL \<notin> set (print_request r)"
  using parse_good_block [OF parse_printed_fresh [OF _ fresh_empty_request, of r "[]"]] by auto

text \<open>
  C13: An echo is more than the request.  On any connection of a running server that has not been
  read yet, a well-formed request for the configured echo path, when no other handler has that
  path, is answered with 200, the text of the request as it was sent, what follows it up to the
  first NUL, which goes on into what an earlier use of the memory left in the buffer, and the
  length of all that.
\<close>

theorem echo_is_served:
  assumes "server_reaches to_verb cfg srv" and "Some c \<in> set (srv_conns srv)"
    and "conn_pending c = Reading" and "\<not> conn_shut c"
    and "wf_request r" and "NUL \<in> set (drop (length (print_request r @ rest)) (sess_data (conn_session c)))"
    and "get_echo_path cfg = Inr (uri r)" and "uri r \<notin> {[], ''/'', ''bad''}"
    and "Inr (uri r) \<notin> {get_health_path cfg, get_crud_path cfg, get_sleep_path cfg, get_markdown_path cfg}"
  shows "\<exists>c' body. read_done to_verb c w False (print_request r @ rest) = Inr (Some c', w) \<and> conn_pending c' = Writing \<and>
    body = print_request r @ c_string (rest @ drop (length (print_request r @ rest)) (sess_data (conn_session c))) \<and>
    sess_response (conn_session c') = \<lparr>res_body = body, res_result = 200, res_content_length = Some (length body),
      res_content_type = Some ''text/plain''\<rparr>"
proof -
  let ?stale = "drop (length (print_request r @ rest)) (sess_data (conn_session c))"
  let ?body = "print_request r @ c_string (rest @ ?stale)"
  let ?Q = "\<lambda>w' res'. w' = w \<and> res' = \<lparr>res_body = ?body, res_result = 200, res_content_length = Some (length ?body),
      res_content_type = Some ''text/plain''\<rparr>"
  have fac: "good_factory cfg routes (uri r) (fall_back routes (routes (uri r))) = Inr (Some (EchoHandlerFactory (uri r)))"
    if "configMap cfg = Inr routes" for routes
  proof -
    have "routes (uri r) = Some (EchoHandlerFactory (uri r))" using configMap_spec [OF that] assms(7-9) by auto
    moreover have "get_request_type cfg (uri r) = Inr type_echo" using echo_request_type [OF that assms(7)] assms(8) by simp
    ultimately show ?thesis by (simp add: good_factory_def fall_back_def)
  qed
  have hdl: "\<exists>w' st res'. handle_request (create (EchoHandlerFactory (uri r))) w
      \<lparr>req_method = to_verb (meth r), req_target = uri r, req_body = body\<rparr> res = Inr (w', st, res') \<and> ?Q w' res'"
    if "buffer_string ((print_request r @ rest) @ ?stale) = Inr body" for body res
  proof -
    have "body = ?body"
      using that c_string_append [OF print_request_nul [OF assms(5)], of "rest @ ?stale"]
      by (simp add: buffer_string_def split: if_splits)
    then show ?thesis by (intro exI [of _ w] exI [of _ True]) (simp add: echo_handle_request_def response_simps)
  qed
  from running_read [where Q = ?Q, OF assms(1-6) fac hdl] show ?thesis by blast
qed

definition echo_request :: request where
  "echo_request = \<lparr>meth = ''GET'', uri = ''/echo'', http_version_major = 1, http_version_minor = 1, headers = []\<rparr>"

lemma echo_facts:
  "wf_request echo_request" "length (print_request echo_request) = 22"
  "get_echo_path two_crud_config = Inr (uri echo_request)" "uri echo_request \<notin> {[], ''/'', ''bad''}"
  "Inr (uri echo_request) \<notin> {get_health_path two_crud_config, get_crud_path two_crud_config,
     get_sleep_path two_crud_config, get_markdown_path two_crud_config}"
  "print_request echo_request = ''GET /echo HTTP/1.1'' @ [CR, LF] @ [CR, LF]"
  by code_simp+

theorem echo_is_served_witness:
  "\<exists>routes c'. configMap two_crud_config = Inr routes \<and>
    read_done (\<lambda>_. verb_get) (start (new_session two_crud_config routes
        (filled (replicate 22 NUL @ ''secret'' @ replicate 996 NUL)))) sample_world False (print_request echo_request @ []) =
      Inr (Some c', sample_world) \<and>
    res_body (sess_response (conn_session c')) = ''GET /echo HTTP/1.1'' @ [CR, LF] @ [CR, LF] @ ''secret''"
proof -
  obtain routes where r: "configMap two_crud_config = Inr routes" using two_crud_routes by blast
  let ?data = "replicate 22 NUL @ ''secret'' @ replicate 996 NUL"
  let ?c = "start (new_session two_crud_config routes (filled ?data))"
  let ?srv = "\<lparr>srv_config = two_crud_config, srv_next = Some (new_session two_crud_config routes (filled ?data)),
    srv_conns = [Some ?c], srv_world = sample_world\<rparr>"
  have reach: "server_reaches (\<lambda>_. verb_get) two_crud_config ?srv"
    by (rule client_reaches [OF r]) (simp add: max_length_def)
  have stale: "drop (length (print_request echo_request @ [])) (sess_data (conn_session ?c)) = ''secret'' @ replicate 996 NUL"
    by (simp add: start_def echo_facts(2))
  have c: "Some ?c \<in> set (srv_conns ?srv)" "conn_pending ?c = Reading" "\<not> conn_shut ?c"
    "NUL \<in> set (drop (length (print_request echo_request @ [])) (sess_data (conn_session ?c)))"
    unfolding stale by (simp_all add: start_def)
  have "c_string (''secret'' @ replicate 996 NUL) = ''secret''"
    by (simp add: c_string_def)
  with echo_is_served [OF reach c(1-3) echo_facts(1) c(4) echo_facts(3-5), of sample_world] r
  show ?thesis unfolding stale by (auto simp: echo_facts(6))
qed

text \<open>
  C12: A Markdown file is served rendered.  On any connection of a running server that has not
  been read yet, a well-formed request for \<open>f.md\<close> below the Markdown location is answered with
  200, the HTML of the lines of the file without line feeds and the length of that body; the
  files are afterwards what they were except that \<open>f.html\<close> next to it does not exist.
\<close>

theorem markdown_is_served:
  assumes "server_reaches to_verb cfg srv" and "Some c \<in> set (srv_conns srv)"
    and "conn_pending c = Reading" and "\<not> conn_shut c"
    and "wf_request r" and "NUL \<in> set (drop (length (print_request r @ rest)) (sess_data (conn_session c)))"
    and "get_request_type cfg (uri r) = Inr type_markdown" and "get_markdown_path cfg = Inr mp"
    and "configMap cfg = Inr routes" and "routes mp = Some (MarkdownHandlerFactory l (slashed ds))"
    and "uri r = SLASH # a @ SLASH # f @ ''.md''" and "SLASH \<notin> set a"
    and "real_ok (world_fs w)" and "ds \<noteq> []" and "list_all plain_name (ds @ [f @ ''.md''])"
    and "plain_name (f @ ''.html'')" and "real_content (world_fs w) (ds @ [f @ ''.md'']) = Some md"
    and "\<not> real_dir (world_fs w) (ds @ [f @ ''.html''])"
  shows "\<exists>c' w' html. read_done to_verb c w False (print_request r @ rest) = Inr (Some c', w') \<and> conn_pending c' = Writing \<and>
    sess_response (conn_session c') = \<lparr>res_body = html, res_result = 200, res_content_length = Some (length html),
      res_content_type = Some ''text/html''\<rparr> \<and>
    html = filter (\<lambda>c. c \<noteq> LF) (render_lines False (read_lines md)) \<and>
    real_content (world_fs w') = (real_content (world_fs w))(ds @ [f @ ''.html''] := None) \<and>
    real_dir (world_fs w') = real_dir (world_fs w)"
proof -
  let ?html = "filter (\<lambda>c. c \<noteq> LF) (render_lines False (read_lines md))"
  let ?Q = "\<lambda>w' res'. res' = \<lparr>res_body = ?html, res_result = 200, res_content_length = Some (length ?html),
      res_content_type = Some ''text/html''\<rparr> \<and>
    real_content (world_fs w') = (real_content (world_fs w))(ds @ [f @ ''.html''] := None) \<and>
    real_dir (world_fs w') = real_dir (world_fs w)"
  have fac: "good_factory cfg routes (uri r) g = Inr (Some (MarkdownHandlerFactory l (slashed ds)))"
    if "configMap cfg = Inr routes" for routes g
    using assms(7-10) that by (simp add: good_factory_def)
  have hdl: "\<exists>w' st res'. handle_request (create (MarkdownHandlerFactory l (slashed ds))) w
      \<lparr>req_method = to_verb (meth r), req_target = uri r, req_body = body\<rparr> res = Inr (w', st, res') \<and> ?Q w' res'" for body res
  proof -
    let ?req = "\<lparr>req_method = to_verb (meth r), req_target = uri r, req_body = body\<rparr>"
    have "req_target ?req = SLASH # a @ SLASH # f @ ''.md''" using assms(11) by simp
    from markdown_serves [OF assms(13-16,12,17,18) this, of res] obtain fs' res' where
      h: "markdown_handle_request (slashed ds) (world_fs w) ?req res = Inr (fs', True, res')" "?Q (w\<lparr>world_fs := fs'\<rparr>) res'"
      by (auto simp: slashed_def)
    have "handle_request (create (MarkdownHandlerFactory l (slashed ds))) w ?req res = Inr (w\<lparr>world_fs := fs'\<rparr>, True, res')"
      using h(1) by simp
    with h(2) show ?thesis by blast
  qed
  from running_read [where Q = ?Q, OF assms(1-6) fac hdl] show ?thesis by blast
qed

definition docs_config :: NginxConfig where
  "docs_config = NginxConfig [NginxConfigStatement [''location'', ''/md'', ''MarkdownHandler'']
     (Some (NginxConfig [NginxConfigStatement [''data_path'', ''/docs''] None]))]"

definition docs_world :: world where
  "docs_world = \<lparr>world_fs =
     \<lparr>fs_root = Dir [(''docs'', Dir [(''a.md'', File ''# hi''), (''a.html'', File ''mine'')])], fs_cwd = []\<rparr>, world_clock = 0\<rparr>"

definition docs_request :: request where
  "docs_request = \<lparr>meth = ''GET'', uri = ''/md/a.md'', http_version_major = 1, http_version_minor = 1, headers = []\<rparr>"

lemma docs_facts:
  "bind_res (configMap docs_config) (\<lambda>r. Inr (r ''/md'')) = Inr (Some (MarkdownHandlerFactory ''/md'' (slashed [''docs''])))"
  "wf_request docs_request" "length (print_request docs_request) = 25"
  "get_request_type docs_config (uri docs_request) = Inr type_markdown" "get_markdown_path docs_config = Inr ''/md''"
  "uri docs_request = SLASH # ''md'' @ SLASH # ''a'' @ ''.md''" "SLASH \<notin> set ''md''" "real_ok (world_fs docs_world)"
  "[''docs''] \<noteq> []" "list_all plain_name ([''docs''] @ [''a'' @ ''.md''])" "plain_name (''a'' @ ''.html'')"
  "real_content (world_fs docs_world) ([''docs''] @ [''a'' @ ''.md'']) = Some ''# hi''"
  "\<not> real_dir (world_fs docs_world) ([''docs''] @ [''a'' @ ''.html''])"
  by code_simp+

theorem markdown_is_served_witness:
  "\<exists>routes c' w' html. configMap docs_config = Inr routes \<and>
    read_done (\<lambda>_. verb_get) (start (new_session docs_config routes (filled (replicate 1024 NUL)))) docs_world False
      (print_request docs_request @ []) = Inr (Some c', w') \<and>
    sess_response (conn_session c') = \<lparr>res_body = html, res_result = 200, res_content_length = Some (length html),
      res_content_type = Some ''text/html''\<rparr> \<and>
    html = filter (\<lambda>c. c \<noteq> LF) (render_lines False (read_lines ''# hi'')) \<and>
    real_content (world_fs w') [''docs'', ''a.html''] = None"
proof -
  obtain routes where r: "configMap docs_config = Inr routes" "routes ''/md'' = Some (MarkdownHandlerFactory ''/md'' (slashed [''docs'']))"
    using docs_facts(1) by (auto simp: bind_res_eq_Inr)
  let ?c = "start (new_session docs_config routes (filled (replicate 1024 NUL)))"
  have c: "Some ?c \<in> set (srv_conns (one_client docs_config routes docs_world))" "conn_pending ?c = Reading" "\<not> conn_shut ?c"
    "NUL \<in> set (drop (length (print_request docs_request @ [])) (sess_data (conn_session ?c)))"
    by (simp_all add: one_client_def start_def Let_def docs_facts(3))
  have reach: "server_reaches (\<lambda>_. verb_get) docs_config (one_client docs_config routes docs_world)"
    using r(1) by (rule one_client_reaches)
  from markdown_is_served [where a = "''md''" and f = "''a''" and ds = "[''docs'']" and w = docs_world,
      OF reach c(1-3) docs_facts(2) c(4) docs_facts(4,5) r docs_facts(6-13)]
  show ?thesis using r(1) by fastforce
qed

end
